theory Spec2Isabelle
  imports Complex_Main "HOL-Library.AList" "HOL-Library.Sublist"
begin

section \<open>Values\<close>

text \<open>
  The record of a request (the wide event) and everything stored in it is plain
  JavaScript data.  A value is \<open>undefined\<close>, \<open>null\<close>, a boolean, a number, a string,
  an array or a plain object.  An object is the list of its own enumerable properties
  in insertion order; reading a key takes the first entry for it and
  \<open>Object.keys\<close> lists every key once.  The place the engine gives to keys that look
  like array indices is not modelled; the theorems speak of keys and of the values
  under them, not of their order.  Strings are sequences of code units.  Numbers are
  the finite ones; \<open>NaN\<close> only appears as the failure of a conversion (\<open>None\<close> in
  \<open>to_number\<close> below).  Every object has the prototype that the language gives it:
  \<open>Object.prototype\<close> for a plain object, \<open>Array.prototype\<close> for an array.
\<close>

datatype jv =
    JUndef
  | JNull
  | JBool bool
  | JNum real
  | JStr string
  | JArr "jv list"
  | JObj "(string \<times> jv) list"

type_synonym obj = "(string \<times> jv) list"

section \<open>Strings\<close>

text \<open>\<open>s.split(c)\<close> for a one-character separator: never empty, \<open>''''\<close> gives \<open>['''']\<close>.\<close>

fun split :: "char \<Rightarrow> string \<Rightarrow> string list" where
  "split c [] = [[]]"
| "split c (x # xs) =
     (if x = c then [] # split c xs
      else (case split c xs of [] \<Rightarrow> [[x]] | p # ps \<Rightarrow> (x # p) # ps))"

text \<open>\<open>parts.join(sep)\<close>.\<close>

fun join :: "string \<Rightarrow> string list \<Rightarrow> string" where
  "join sep [] = []"
| "join sep [p] = p"
| "join sep (p # q # ps) = p @ sep @ join sep (q # ps)"

text \<open>\<open>'*'.repeat(n)\<close>.\<close>

definition stars :: "nat \<Rightarrow> string" where
  "stars n = replicate n (CHR ''*'')"

text \<open>The decimal numeral of a natural number.\<close>

definition digit :: "nat \<Rightarrow> char" where
  "digit n = ''0123456789'' ! n"

fun dec :: "nat \<Rightarrow> string" where
  "dec n = (if n < 10 then [digit n] else dec (n div 10) @ [digit (n mod 10)])"

section \<open>The runtime\<close>

text \<open>
  What the model takes from the runtime as parameters: the decimal rendering of a
  number (\<open>String(n)\<close>), the reading of a string as a number (\<open>None\<close> is \<open>NaN\<close>),
  the SHA-256 digest of a string in lowercase hexadecimal
  (\<open>createHash('sha256').update(s).digest('hex')\<close>), the names of the members of
  \<open>Array.prototype\<close>, which grow with the edition of the language, and the rounding
  of a real number to the nearest double, which follows every arithmetic operation on
  numbers.
\<close>

record platform =
  num_to_string :: "real \<Rightarrow> string"
  str_to_num :: "string \<Rightarrow> real option"
  sha256_hex :: "string \<Rightarrow> string"
  array_prototype :: "string list"
  to_double :: "real \<Rightarrow> real"

text \<open>
  The platform of the worked examples: it prints the integer part of a number, reads
  no string as a number, has a constant digest and a short \<open>Array.prototype\<close>, and
  computes without rounding.
\<close>

definition example_platform :: platform where
  "example_platform =
     \<lparr>num_to_string = (\<lambda>r. (if r < 0 then ''-'' else []) @ dec (nat \<lfloor>\<bar>r\<bar>\<rfloor>)),
      str_to_num = (\<lambda>s. None),
      sha256_hex = (\<lambda>s. replicate 64 (CHR ''0'')),
      array_prototype = [''constructor'', ''push'', ''pop'', ''map'', ''join'', ''toString''],
      to_double = (\<lambda>r. r)\<rparr>"

section \<open>Objects and properties\<close>

text \<open>
  \<open>Object.keys(o)\<close> and the read \<open>o[k]\<close> of an own property of a plain object; a
  missing key reads as \<open>undefined\<close>.  Defining a property, as an object literal and
  the spread \<open>{ ...o }\<close> do, is \<open>AList.update k v\<close>: it replaces the value in place
  when the key exists and appends the key otherwise.
\<close>

definition keys :: "('k \<times> 'v) list \<Rightarrow> 'k list" where
  "keys kvs = remdups (map fst kvs)"

definition lookup :: "obj \<Rightarrow> string \<Rightarrow> jv" where
  "lookup kvs k = (case map_of kvs k of Some v \<Rightarrow> v | None \<Rightarrow> JUndef)"

text \<open>
  The assignment \<open>o[k] = v\<close> to a plain object defines the property, with one
  exception: \<open>Object.prototype\<close> has a setter for the key \<open>__proto__\<close>, so for an
  object without an own property of this name the assignment adds no property; it
  makes \<open>v\<close> the prototype of \<open>o\<close> when \<open>v\<close> is an object or \<open>null\<close> and does
  nothing otherwise.  \<open>put\<close> gives the own properties after the assignment.  The
  values of the model do not record a prototype that was changed, so what is read
  through it later is not represented; the theorems that speak of reads after such an
  assignment exclude it by hypothesis (\<open>proto_free\<close> below, or a path without the
  segment).
\<close>

definition put :: "string \<Rightarrow> 'v \<Rightarrow> (string \<times> 'v) list \<Rightarrow> (string \<times> 'v) list" where
  "put k v kvs =
     (if k = ''__proto__'' \<and> k \<notin> set (keys kvs) then kvs else AList.update k v kvs)"

text \<open>No object of the value has an own property \<open>__proto__\<close>.\<close>

fun proto_free :: "jv \<Rightarrow> bool" where
  "proto_free (JObj kvs) =
     (''__proto__'' \<notin> set (keys kvs) \<and> list_all (\<lambda>kv. proto_free (snd kv)) kvs)"
| "proto_free (JArr xs) = list_all proto_free xs"
| "proto_free _ = True"

text \<open>The index that a key of an array stands for.\<close>

definition array_index :: "string \<Rightarrow> nat \<Rightarrow> nat option" where
  "array_index k n = find (\<lambda>i. dec i = k) [0..<n]"

text \<open>The own properties of a value: of an array, its indices and \<open>length\<close>.\<close>

fun own_keys :: "jv \<Rightarrow> string list" where
  "own_keys (JObj kvs) = keys kvs"
| "own_keys (JArr xs) = map dec [0..<length xs] @ [''length'']"
| "own_keys _ = []"

text \<open>
  A read \<open>o[k]\<close> with an arbitrary key, and the test \<open>k in o\<close>, follow the prototype
  chain: a plain object inherits the members of \<open>Object.prototype\<close>, an array those of
  \<open>Array.prototype\<close> and then of \<open>Object.prototype\<close>.  What such a read returns is
  a value of the data or one of the built-in objects: a prototype, or a function
  (given by its name).  The member \<open>__proto__\<close> returns the prototype of the object
  it is read from, \<open>null\<close> for \<open>Object.prototype\<close>.
\<close>

datatype builtin = ObjectPrototype | ArrayPrototype | Function string

datatype ref = Data jv | Builtin builtin

definition OBJECT_PROTOTYPE :: "string list" where
  "OBJECT_PROTOTYPE =
     [''constructor'', ''__defineGetter__'', ''__defineSetter__'', ''hasOwnProperty'',
      ''__lookupGetter__'', ''__lookupSetter__'', ''isPrototypeOf'', ''propertyIsEnumerable'',
      ''toString'', ''valueOf'', ''__proto__'', ''toLocaleString'']"

definition inherited_object :: "ref \<Rightarrow> string \<Rightarrow> ref" where
  "inherited_object proto k =
     (if k = ''__proto__'' then proto
      else if k = ''constructor'' then Builtin (Function ''Object'')
      else if k \<in> set OBJECT_PROTOTYPE then Builtin (Function k)
      else Data JUndef)"

definition inherited_array :: "platform \<Rightarrow> ref \<Rightarrow> string \<Rightarrow> ref" where
  "inherited_array pf proto k =
     (if k = ''constructor'' then Builtin (Function ''Array'')
      else if k \<in> set (array_prototype pf) then Builtin (Function k)
      else inherited_object proto k)"

text \<open>
  \<open>is_object v\<close> is the negation of the test
  \<open>current === null || typeof current !== 'object'\<close>: arrays and the two prototypes
  are objects, a function has the type \<open>function\<close>.
\<close>

fun is_object :: "ref \<Rightarrow> bool" where
  "is_object (Data (JObj _)) = True"
| "is_object (Data (JArr _)) = True"
| "is_object (Builtin ObjectPrototype) = True"
| "is_object (Builtin ArrayPrototype) = True"
| "is_object _ = False"

text \<open>\<open>k in v\<close> and \<open>v[k]\<close> for an object \<open>v\<close>.\<close>

fun has_prop :: "platform \<Rightarrow> ref \<Rightarrow> string \<Rightarrow> bool" where
  "has_prop pf (Data v) k =
     (k \<in> set (own_keys v)
      \<or> (case v of
            JObj _ \<Rightarrow> k \<in> set OBJECT_PROTOTYPE
          | JArr _ \<Rightarrow> k \<in> set (array_prototype pf) \<or> k \<in> set OBJECT_PROTOTYPE
          | _ \<Rightarrow> False))"
| "has_prop pf (Builtin ObjectPrototype) k = (k \<in> set OBJECT_PROTOTYPE)"
| "has_prop pf (Builtin ArrayPrototype) k =
     (k = ''length'' \<or> k \<in> set (array_prototype pf) \<or> k \<in> set OBJECT_PROTOTYPE)"
| "has_prop pf (Builtin (Function n)) k = False"

fun get_prop :: "platform \<Rightarrow> ref \<Rightarrow> string \<Rightarrow> ref" where
  "get_prop pf (Data (JObj kvs)) k =
     (case map_of kvs k of
        Some v \<Rightarrow> Data v
      | None \<Rightarrow> inherited_object (Builtin ObjectPrototype) k)"
| "get_prop pf (Data (JArr xs)) k =
     (if k = ''length'' then Data (JNum (real (length xs)))
      else (case array_index k (length xs) of
              Some i \<Rightarrow> Data (xs ! i)
            | None \<Rightarrow> inherited_array pf (Builtin ArrayPrototype) k))"
| "get_prop pf (Builtin ObjectPrototype) k = inherited_object (Data JNull) k"
| "get_prop pf (Builtin ArrayPrototype) k =
     (if k = ''length'' then Data (JNum 0)
      else inherited_array pf (Builtin ObjectPrototype) k)"
| "get_prop pf _ k = Data JUndef"

text \<open>\<open>isPlainObject\<close>: not \<open>null\<close>, not an array, an object with the plain prototype.\<close>

fun isPlainObject :: "jv \<Rightarrow> bool" where
  "isPlainObject (JObj _) = True"
| "isPlainObject _ = False"

fun props :: "jv \<Rightarrow> obj" where
  "props (JObj kvs) = kvs"
| "props _ = []"

section \<open>Conversions of the language\<close>

text \<open>
  A conversion can raise.  What a function of the source raises is a value of the
  model: the result of a function that can raise is \<open>Inl\<close> of the error or \<open>Inr\<close> of
  what it returns.  \<open>collect\<close> runs through results from the left and stops at the
  first error.
\<close>

datatype error = TypeError

fun collect :: "(error + 'a) list \<Rightarrow> error + 'a list" where
  "collect [] = Inr []"
| "collect (Inl e # rs) = Inl e"
| "collect (Inr x # rs) = (case collect rs of Inl e \<Rightarrow> Inl e | Inr xs \<Rightarrow> Inr (x # xs))"

text \<open>
  \<open>String(v)\<close>.  An array joins its elements with commas, \<open>null\<close> and \<open>undefined\<close>
  elements giving the empty string.  An object is converted by the method found under
  \<open>toString\<close>: the inherited one prints \<open>[object Object]\<close>; an own property of this
  name holds data, which cannot be called, and since \<open>valueOf\<close> gives no primitive
  either the conversion raises a \<open>TypeError\<close>.
\<close>

fun to_string :: "platform \<Rightarrow> jv \<Rightarrow> error + string" where
  "to_string pf JUndef = Inr ''undefined''"
| "to_string pf JNull = Inr ''null''"
| "to_string pf (JBool b) = Inr (if b then ''true'' else ''false'')"
| "to_string pf (JNum r) = Inr (num_to_string pf r)"
| "to_string pf (JStr s) = Inr s"
| "to_string pf (JArr xs) =
     (case collect (map (\<lambda>x. if x = JUndef \<or> x = JNull then Inr [] else to_string pf x) xs) of
        Inl e \<Rightarrow> Inl e
      | Inr ps \<Rightarrow> Inr (join '','' ps))"
| "to_string pf (JObj kvs) =
     (if ''toString'' \<in> set (keys kvs) then Inl TypeError else Inr ''[object Object]'')"

text \<open>
  The values that \<open>String\<close> converts: the primitives, the objects without an own
  property \<open>toString\<close>, and the arrays of such values.
\<close>

fun convertible :: "jv \<Rightarrow> bool" where
  "convertible (JObj kvs) = (''toString'' \<notin> set (keys kvs))"
| "convertible (JArr xs) = list_all convertible xs"
| "convertible _ = True"

text \<open>\<open>ToNumber\<close>, as the relational operators apply it to a value compared with a
  number; an object is first converted as by \<open>String\<close>.\<close>

fun to_number :: "platform \<Rightarrow> jv \<Rightarrow> error + real option" where
  "to_number pf JUndef = Inr None"
| "to_number pf JNull = Inr (Some 0)"
| "to_number pf (JBool b) = Inr (Some (if b then 1 else 0))"
| "to_number pf (JNum r) = Inr (Some r)"
| "to_number pf (JStr s) = Inr (str_to_num pf s)"
| "to_number pf (JArr xs) =
     (case to_string pf (JArr xs) of Inl e \<Rightarrow> Inl e | Inr s \<Rightarrow> Inr (str_to_num pf s))"
| "to_number pf (JObj kvs) =
     (case to_string pf (JObj kvs) of Inl e \<Rightarrow> Inl e | Inr s \<Rightarrow> Inr (str_to_num pf s))"

text \<open>\<open>v >= n\<close> and \<open>v > n\<close> for a number \<open>n\<close>: false when \<open>v\<close> converts to \<open>NaN\<close>.\<close>

definition js_ge :: "platform \<Rightarrow> jv \<Rightarrow> real \<Rightarrow> error + bool" where
  "js_ge pf v n =
     (case to_number pf v of
        Inl e \<Rightarrow> Inl e
      | Inr None \<Rightarrow> Inr False
      | Inr (Some x) \<Rightarrow> Inr (x \<ge> n))"

definition js_gt :: "platform \<Rightarrow> jv \<Rightarrow> real \<Rightarrow> error + bool" where
  "js_gt pf v n =
     (case to_number pf v of
        Inl e \<Rightarrow> Inl e
      | Inr None \<Rightarrow> Inr False
      | Inr (Some x) \<Rightarrow> Inr (x > n))"

text \<open>Truthiness, \<open>typeof\<close>, and \<open>v ?? d\<close>.\<close>

fun truthy :: "jv \<Rightarrow> bool" where
  "truthy JUndef = False"
| "truthy JNull = False"
| "truthy (JBool b) = b"
| "truthy (JNum r) = (r \<noteq> 0)"
| "truthy (JStr s) = (s \<noteq> [])"
| "truthy (JArr xs) = True"
| "truthy (JObj kvs) = True"

fun typeof :: "jv \<Rightarrow> string" where
  "typeof JUndef = ''undefined''"
| "typeof JNull = ''object''"
| "typeof (JBool b) = ''boolean''"
| "typeof (JNum r) = ''number''"
| "typeof (JStr s) = ''string''"
| "typeof (JArr xs) = ''object''"
| "typeof (JObj kvs) = ''object''"

definition nullish :: "jv \<Rightarrow> jv \<Rightarrow> jv" where
  "nullish v d = (if v = JUndef \<or> v = JNull then d else v)"

text \<open>
  The same for what a property read returns.  A built-in function prints as
  \<open>function name() { [native code] }\<close>, \<open>Object.prototype\<close> as an object and
  \<open>Array.prototype\<close>, an empty array, as the empty string.
\<close>

fun to_string_ref :: "platform \<Rightarrow> ref \<Rightarrow> error + string" where
  "to_string_ref pf (Data v) = to_string pf v"
| "to_string_ref pf (Builtin (Function n)) = Inr (''function '' @ n @ ''() { [native code] }'')"
| "to_string_ref pf (Builtin ObjectPrototype) = Inr ''[object Object]''"
| "to_string_ref pf (Builtin ArrayPrototype) = Inr []"

fun typeof_ref :: "ref \<Rightarrow> string" where
  "typeof_ref (Data v) = typeof v"
| "typeof_ref (Builtin (Function n)) = ''function''"
| "typeof_ref (Builtin _) = ''object''"

section \<open>Path and merge utility\<close>

definition MAX_MERGE_DEPTH :: nat where
  "MAX_MERGE_DEPTH = 5"

text \<open>\<open>{ ...target, ...source }\<close>.\<close>

definition spread :: "obj \<Rightarrow> obj \<Rightarrow> obj" where
  "spread target source =
     foldl (\<lambda>result key. AList.update key (lookup source key) result) target (keys source)"

text \<open>
  \<open>mergeDeep(target, source, depth)\<close>.  The result starts as a copy of the target and
  the loop runs over \<open>Object.keys(source)\<close>.  \<open>source[key]\<close> is an own property.
  \<open>result[key]\<close> may be inherited when the result has no such key: under a key other
  than \<open>__proto__\<close> it is then a function and no plain object, so the branch taken is
  the one for \<open>undefined\<close>; under \<open>__proto__\<close> it is \<open>Object.prototype\<close>, and in
  either branch the assignment that follows goes to the setter and adds no property.
\<close>

function mergeDeep :: "obj \<Rightarrow> obj \<Rightarrow> nat \<Rightarrow> obj" where
  "mergeDeep target source depth =
     (if depth \<ge> MAX_MERGE_DEPTH then spread target source
      else foldl
        (\<lambda>result key.
           let sourceValue = lookup source key;
               targetValue = lookup result key
           in if isPlainObject sourceValue \<and> isPlainObject targetValue
              then put key
                     (JObj (mergeDeep (props targetValue) (props sourceValue) (depth + 1)))
                     result
              else put key sourceValue result)
        target (keys source))"
  by pat_completeness auto
termination
  by (relation "measure (\<lambda>(target, source, depth). MAX_MERGE_DEPTH - depth)") auto

declare mergeDeep.simps [simp del]

text \<open>
  \<open>setPath(obj, path, value)\<close>.  The source copies the root and then, segment by
  segment, replaces the child by a copy of it (or by an empty object when it is not a
  plain object, as also a function inherited under the key is not) and descends into
  the copy; the last segment receives the value.  Under a segment \<open>__proto__\<close> that is
  no own key the copy is empty and becomes the prototype: the rest of the path is
  written into it and the own properties stay as they are.  \<open>path.split('.')\<close> is
  never empty, so the first equation is not reached from \<open>setPath\<close>.
\<close>

fun setPath_loop :: "obj \<Rightarrow> string list \<Rightarrow> jv \<Rightarrow> obj" where
  "setPath_loop current [] v = current"
| "setPath_loop current [key] v = put key v current"
| "setPath_loop current (key # rest) v =
     (let existing = lookup current key;
          child = (if isPlainObject existing then props existing else [])
      in put key (JObj (setPath_loop child rest v)) current)"

definition setPath :: "obj \<Rightarrow> string \<Rightarrow> jv \<Rightarrow> obj" where
  "setPath obj path v = setPath_loop obj (split (CHR ''.'') path) v"

text \<open>\<open>getPath(obj, path)\<close>.\<close>

fun getPath_loop :: "platform \<Rightarrow> ref \<Rightarrow> string list \<Rightarrow> ref" where
  "getPath_loop pf current [] = current"
| "getPath_loop pf current (part # parts) =
     (if \<not> is_object current then Data JUndef
      else getPath_loop pf (get_prop pf current part) parts)"

definition getPath :: "platform \<Rightarrow> obj \<Rightarrow> string \<Rightarrow> ref" where
  "getPath pf obj path = getPath_loop pf (Data (JObj obj)) (split (CHR ''.'') path)"

text \<open>\<open>hasPath(obj, path)\<close>.\<close>

fun hasPath_loop :: "platform \<Rightarrow> ref \<Rightarrow> string list \<Rightarrow> bool" where
  "hasPath_loop pf current [] = True"
| "hasPath_loop pf current (part # parts) =
     (if \<not> is_object current then False
      else if \<not> has_prop pf current part then False
      else hasPath_loop pf (get_prop pf current part) parts)"

definition hasPath :: "platform \<Rightarrow> obj \<Rightarrow> string \<Rightarrow> bool" where
  "hasPath pf obj path = hasPath_loop pf (Data (JObj obj)) (split (CHR ''.'') path)"

text \<open>
  \<open>snapshot(obj)\<close> is \<open>structuredClone\<close>: on values it is the identity.  That the clone
  shares nothing with its argument is a statement about the store and is made in the
  heap model further down.
\<close>

definition snapshot :: "jv \<Rightarrow> jv" where
  "snapshot v = v"

section \<open>Schema validator\<close>

datatype FieldType = TString | TNumber | TBoolean | TObject | TArray

datatype RedactionStrategy = Mask | Hash | Drop

datatype UnknownFieldMode = Allow | Warn | Deny

datatype Cardinality = Low | High

record FieldDefinition =
  ftype :: FieldType
  pii :: "bool option"
  redaction :: "RedactionStrategy option"
  cardinality :: "Cardinality option"

record CanonSchema =
  required :: "string list"
  schema_fields :: "(string \<times> FieldDefinition) list"
  unknownMode :: "UnknownFieldMode option"

record ValidationResult =
  valid :: bool
  errors :: "string list"
  warnings :: "string list"

definition BUILT_IN_REQUIRED :: "string list" where
  "BUILT_IN_REQUIRED =
     [''timestamp'', ''request_id'', ''service'', ''method'', ''path'',
      ''status_code'', ''duration_ms'', ''outcome'']"

fun type_name :: "FieldType \<Rightarrow> string" where
  "type_name TString = ''string''"
| "type_name TNumber = ''number''"
| "type_name TBoolean = ''boolean''"
| "type_name TObject = ''object''"
| "type_name TArray = ''array''"

text \<open>\<open>matchesType\<close>, applied to what \<open>getPath\<close> returns.  A number of the model is
  never \<open>NaN\<close>; \<open>Array.isArray\<close> holds of arrays and of \<open>Array.prototype\<close>.\<close>

fun is_array :: "ref \<Rightarrow> bool" where
  "is_array (Data (JArr _)) = True"
| "is_array (Builtin ArrayPrototype) = True"
| "is_array _ = False"

definition matchesType :: "ref \<Rightarrow> FieldType \<Rightarrow> bool" where
  "matchesType v expectedType =
     (if v = Data JNull \<or> v = Data JUndef then True
      else (case expectedType of
              TString \<Rightarrow> typeof_ref v = ''string''
            | TNumber \<Rightarrow> typeof_ref v = ''number''
            | TBoolean \<Rightarrow> typeof_ref v = ''boolean''
            | TObject \<Rightarrow> typeof_ref v = ''object'' \<and> \<not> is_array v
            | TArray \<Rightarrow> is_array v))"

definition getTopLevelKeys :: "obj \<Rightarrow> string list" where
  "getTopLevelKeys ev = keys ev"

text \<open>\<open>getKnownTopLevelKeys\<close>; the set is kept as the list of the keys added.\<close>

definition getKnownTopLevelKeys :: "CanonSchema \<Rightarrow> string list" where
  "getKnownTopLevelKeys schema =
     map (\<lambda>path. hd (split (CHR ''.'') path)) (required schema)
     @ map (\<lambda>path. hd (split (CHR ''.'') path)) (keys (schema_fields schema))
     @ BUILT_IN_REQUIRED"

text \<open>
  \<open>validateSchema(event, schema, strict)\<close>.  The two arrays \<open>errors\<close> and \<open>warnings\<close>
  are threaded through the four loops of the source in their order.
\<close>

definition validateSchema ::
  "platform \<Rightarrow> obj \<Rightarrow> CanonSchema option \<Rightarrow> bool \<Rightarrow> ValidationResult" where
  "validateSchema pf event schema strict =
     (let errors = foldl (\<lambda>errors field.
                      if \<not> hasPath pf event field
                      then errors @ [''Missing required built-in field: '' @ field]
                      else errors) [] BUILT_IN_REQUIRED;
          warnings = []
      in case schema of
           None \<Rightarrow> \<lparr>valid = (length errors = 0), errors = errors, warnings = warnings\<rparr>
         | Some schema \<Rightarrow>
            (let errors = foldl (\<lambda>errors path.
                      if \<not> hasPath pf event path
                      then errors @ [''Missing required field: '' @ path]
                      else errors) errors (required schema);
                 (errors, warnings) = foldl (\<lambda>(errors, warnings) path.
                      case map_of (schema_fields schema) path of
                        None \<Rightarrow> (errors, warnings)
                      | Some definition \<Rightarrow>
                          if hasPath pf event path then
                            (let v = getPath pf event path in
                             if \<not> matchesType v (ftype definition) then
                               (let msg = ''Field \"'' @ path @ ''\" has invalid type: expected ''
                                            @ type_name (ftype definition) @ '', got '' @ typeof_ref v
                                in if strict then (errors @ [msg], warnings)
                                   else (errors, warnings @ [msg]))
                             else (errors, warnings))
                          else (errors, warnings))
                    (errors, warnings) (keys (schema_fields schema));
                 mode = (case unknownMode schema of None \<Rightarrow> Allow | Some m \<Rightarrow> m);
                 (errors, warnings) =
                    (if mode \<noteq> Allow then
                       (let knownKeys = getKnownTopLevelKeys schema;
                            actualKeys = getTopLevelKeys event
                        in foldl (\<lambda>(errors, warnings) key.
                             if key \<notin> set knownKeys then
                               (let msg = ''Unknown top-level field: '' @ key
                                in if mode = Deny \<and> strict then (errors @ [msg], warnings)
                                   else (errors, warnings @ [msg]))
                             else (errors, warnings))
                           (errors, warnings) actualKeys)
                     else (errors, warnings))
             in \<lparr>valid = (length errors = 0), errors = errors, warnings = warnings\<rparr>))"

section \<open>Tail sampler\<close>

record SamplingConfig =
  sampleRateSuccess :: "real option"
  slowThresholdMs :: "real option"
  custom :: "(obj \<Rightarrow> bool) option"

text \<open>The sampling argument is \<open>undefined\<close>, a decision function or a rules object.\<close>

datatype sampling = SampleUndefined | SampleFunction "obj \<Rightarrow> bool" | SampleRules SamplingConfig

definition DEFAULT_sampleRateSuccess :: real where
  "DEFAULT_sampleRateSuccess = 5 / 100"

definition DEFAULT_slowThresholdMs :: real where
  "DEFAULT_slowThresholdMs = 2000"

definition ALWAYS_SAMPLE_STATUS_CODES :: "jv list" where
  "ALWAYS_SAMPLE_STATUS_CODES = [JNum 408, JNum 429]"

text \<open>
  \<open>shouldSampleDefault(event, config)\<close>; \<open>random\<close> is the value that
  \<open>Math.random()\<close> returns when the last rule is reached.  The two comparisons convert
  what the record holds to a number and can raise.
\<close>

definition shouldSampleDefault ::
  "platform \<Rightarrow> real \<Rightarrow> obj \<Rightarrow> SamplingConfig \<Rightarrow> error + bool" where
  "shouldSampleDefault pf random event config =
     (let statusCode = nullish (lookup event ''status_code'') (JNum 0);
          durationMs = nullish (lookup event ''duration_ms'') (JNum 0);
          outcome = lookup event ''outcome''
      in case js_ge pf statusCode 500 of
           Inl e \<Rightarrow> Inl e
         | Inr ge \<Rightarrow>
             if ge then Inr True
             else if statusCode \<in> set ALWAYS_SAMPLE_STATUS_CODES then Inr True
             else if outcome = JStr ''aborted'' then Inr True
             else if outcome = JStr ''error'' then Inr True
             else
               (let slowThreshold =
                      (case slowThresholdMs config of
                         Some t \<Rightarrow> t | None \<Rightarrow> DEFAULT_slowThresholdMs)
                in case js_gt pf durationMs slowThreshold of
                     Inl e \<Rightarrow> Inl e
                   | Inr gt \<Rightarrow>
                       if gt then Inr True
                       else
                         (let sampleRate =
                                (case sampleRateSuccess config of
                                   Some r \<Rightarrow> r | None \<Rightarrow> DEFAULT_sampleRateSuccess)
                          in Inr (random < sampleRate))))"

text \<open>\<open>shouldSample(event, config)\<close>.\<close>

definition shouldSample :: "platform \<Rightarrow> real \<Rightarrow> obj \<Rightarrow> sampling \<Rightarrow> error + bool" where
  "shouldSample pf random event config =
     (case config of
        SampleUndefined \<Rightarrow>
          shouldSampleDefault pf random event
            \<lparr>sampleRateSuccess = None, slowThresholdMs = None, custom = None\<rparr>
      | SampleFunction f \<Rightarrow> Inr (f event)
      | SampleRules rules \<Rightarrow>
          (case custom rules of
             Some f \<Rightarrow> Inr (f event)
           | None \<Rightarrow> shouldSampleDefault pf random event rules))"
section \<open>Redaction strategies: mask\<close>

text \<open>
  \<open>maskValue\<close> of the redaction engine.  The destructuring
  \<open>[local, domain] = value.split('@')\<close> takes the first two parts; the last branch of
  the \<open>case\<close> is never taken, because a string that contains \<open>@\<close> splits into two
  parts at least (lemma \<open>split_two\<close>).
\<close>

definition maskValue :: "string \<Rightarrow> string" where
  "maskValue value =
     (if length value \<le> 2 then stars (length value)
      else if CHR ''@'' \<in> set value then
        (case split (CHR ''@'') value of
           local # domain # _ \<Rightarrow>
             (let maskedLocal =
                    (if length local > 1
                     then hd local # stars (max 1 (length local - 1))
                     else ''*'');
                  domainParts = split (CHR ''.'') domain;
                  maskedDomain = join ''.''
                    (map (\<lambda>(i, part).
                            if i = length domainParts - 1 then part
                            else if length part > 1
                                 then hd part # stars (length part - 1)
                                 else ''*'')
                         (enumerate 0 domainParts))
              in maskedLocal @ ''@'' @ maskedDomain)
         | _ \<Rightarrow> [])
      else
        (let first = hd value;
             last = last value;
             middleLength = max 1 (length value - 2)
         in first # stars middleLength @ [last]))"

text \<open>
  The mask strategy as the specification words it: the local part and every domain
  label but the last keep their first character and have the rest replaced by
  asterisks.
\<close>

definition keep_first :: "string \<Rightarrow> string" where
  "keep_first p = (case p of [] \<Rightarrow> [] | c # r \<Rightarrow> c # stars (length r))"

definition mask_spec :: "string \<Rightarrow> string" where
  "mask_spec s =
     (if CHR ''@'' \<in> set s \<and> 2 < length s then
        (let local = takeWhile (\<lambda>c. c \<noteq> CHR ''@'') s;
             labels = split (CHR ''.'') (tl (dropWhile (\<lambda>c. c \<noteq> CHR ''@'') s))
         in keep_first local @ ''@'' @ join ''.'' (map keep_first (butlast labels) @ [last labels]))
      else if length s \<le> 2 then stars (length s)
      else hd s # stars (length s - 2) @ [last s])"

text \<open>What the code does to the local part and to a masked label.\<close>

definition mask_label :: "string \<Rightarrow> string" where
  "mask_label p = (if 1 < length p then hd p # stars (length p - 1) else ''*'')"

section \<open>Redaction engine\<close>

record RedactionConfig =
  enabled :: bool
  strategy :: "RedactionStrategy option"
  redact_fields :: "string list"

definition DEFAULT_SENSITIVE_FIELDS :: "string list" where
  "DEFAULT_SENSITIVE_FIELDS =
     [''user.email'', ''user.phone'', ''headers.authorization'', ''headers.cookie'',
      ''headers.x-api-key'']"

definition hashValue :: "platform \<Rightarrow> string \<Rightarrow> string" where
  "hashValue pf s = sha256_hex pf s"

text \<open>\<open>redactValue(value, strategy)\<close>; \<open>null\<close> and \<open>undefined\<close> are returned as they
  are.  \<open>String(value)\<close> is evaluated before the strategy is looked at, so the function
  raises what the conversion raises.\<close>

definition redactValue :: "platform \<Rightarrow> ref \<Rightarrow> RedactionStrategy \<Rightarrow> error + jv" where
  "redactValue pf v strat =
     (if v = Data JNull then Inr JNull
      else if v = Data JUndef then Inr JUndef
      else
        (case to_string_ref pf v of
           Inl e \<Rightarrow> Inl e
         | Inr stringValue \<Rightarrow>
             (case strat of
                Mask \<Rightarrow> Inr (JStr (maskValue stringValue))
              | Hash \<Rightarrow> Inr (JStr (hashValue pf stringValue))
              | Drop \<Rightarrow> Inr (JStr ''[REDACTED]''))))"

text \<open>\<open>schema?.fields[path]?.redaction ?? globalStrategy\<close>.\<close>

definition fieldStrategy ::
  "CanonSchema option \<Rightarrow> string \<Rightarrow> RedactionStrategy \<Rightarrow> RedactionStrategy" where
  "fieldStrategy schema path globalStrategy =
     (case schema of
        None \<Rightarrow> globalStrategy
      | Some s \<Rightarrow>
          (case map_of (schema_fields s) path of
             None \<Rightarrow> globalStrategy
           | Some d \<Rightarrow> (case redaction d of None \<Rightarrow> globalStrategy | Some r \<Rightarrow> r)))"

text \<open>\<open>applyRedaction(event, config, schema)\<close>.  The loop over the paths ends at the
  first path whose value cannot be converted: the error leaves the function.\<close>

definition applyRedaction ::
  "platform \<Rightarrow> obj \<Rightarrow> RedactionConfig option \<Rightarrow> CanonSchema option \<Rightarrow> error + obj" where
  "applyRedaction pf event config schema =
     (let redacted = props (snapshot (JObj event))
      in case config of
           None \<Rightarrow> Inr redacted
         | Some config \<Rightarrow>
             if \<not> enabled config then Inr redacted
             else
               (let globalStrategy = (case strategy config of None \<Rightarrow> Mask | Some s \<Rightarrow> s);
                    fieldsToRedact = (if length (redact_fields config) > 0 then redact_fields config
                                      else DEFAULT_SENSITIVE_FIELDS)
                in foldl (\<lambda>state path.
                            case state of
                              Inl e \<Rightarrow> Inl e
                            | Inr result \<Rightarrow>
                                (let v = getPath pf result path
                                 in if v \<noteq> Data JUndef
                                    then (case redactValue pf v
                                                 (fieldStrategy schema path globalStrategy) of
                                            Inl e \<Rightarrow> Inl e
                                          | Inr redactedValue \<Rightarrow>
                                              Inr (setPath result path redactedValue))
                                    else Inr result))
                         (Inr redacted) fieldsToRedact))"
section \<open>Event builder\<close>

datatype RequestOutcome = OSuccess | OError | OAborted

fun outcome_str :: "RequestOutcome \<Rightarrow> string" where
  "outcome_str OSuccess = ''success''"
| "outcome_str OError = ''error''"
| "outcome_str OAborted = ''aborted''"

record EventBuilderState =
  event :: obj
  startTime :: real
  finalized :: bool
  emitted :: bool

text \<open>
  The methods of \<open>EventBuilder\<close> take the state and return the new one.  The warning
  that \<open>enrich\<close>, \<open>set\<close> and \<open>markError\<close> write to the error stream after finalization
  is not part of the builder's state.
\<close>

definition createEventBuilder :: "obj \<Rightarrow> real \<Rightarrow> EventBuilderState" where
  "createEventBuilder initialData start =
     \<lparr>event = initialData, startTime = start, finalized = False, emitted = False\<rparr>"

definition enrich :: "obj \<Rightarrow> EventBuilderState \<Rightarrow> EventBuilderState" where
  "enrich obj s = (if finalized s then s else s\<lparr>event := mergeDeep (event s) obj 0\<rparr>)"

definition set_path :: "string \<Rightarrow> jv \<Rightarrow> EventBuilderState \<Rightarrow> EventBuilderState" where
  "set_path path v s = (if finalized s then s else s\<lparr>event := setPath (event s) path v\<rparr>)"

definition get :: "EventBuilderState \<Rightarrow> obj" where
  "get s = props (snapshot (JObj (event s)))"

text \<open>
  What is passed to \<open>markError\<close>: an instance of \<open>Error\<close> with its name, its message
  and its further own properties, or any other value.
\<close>

datatype thrown = ErrorInstance string string obj | Thrown jv

text \<open>\<open>normalizeError(err)\<close>.  \<open>String(err)\<close> is evaluated where the message is not a
  string, and the function raises what the conversion raises.\<close>

fun normalizeError :: "platform \<Rightarrow> thrown \<Rightarrow> error + obj" where
  "normalizeError pf (ErrorInstance name message own) =
     (let canonError = [(''type'', JStr (if name \<noteq> [] then name else ''Error'')),
                        (''message'', JStr (if message \<noteq> [] then message else ''Unknown error''))];
          canonError = (case map_of own ''code'' of
                          Some (JStr c) \<Rightarrow> AList.update ''code'' (JStr c) canonError
                        | _ \<Rightarrow> canonError);
          canonError = (case map_of own ''retriable'' of
                          Some (JBool b) \<Rightarrow> AList.update ''retriable'' (JBool b) canonError
                        | _ \<Rightarrow> canonError)
      in Inr canonError)"
| "normalizeError pf (Thrown err) =
     (if is_object (Data err) then
        (case (case get_prop pf (Data err) ''message'' of
                 Data (JStr s) \<Rightarrow> Inr s | _ \<Rightarrow> to_string pf err) of
           Inl e \<Rightarrow> Inl e
         | Inr message \<Rightarrow>
             Inr [(''type'', JStr (case get_prop pf (Data err) ''type'' of
                                    Data (JStr s) \<Rightarrow> s | _ \<Rightarrow> ''Error'')),
                  (''message'', JStr message),
                  (''code'', (case get_prop pf (Data err) ''code'' of
                               Data (JStr s) \<Rightarrow> JStr s | _ \<Rightarrow> JUndef)),
                  (''retriable'', (case get_prop pf (Data err) ''retriable'' of
                                    Data (JBool b) \<Rightarrow> JBool b | _ \<Rightarrow> JUndef))])
      else
        (case to_string pf err of
           Inl e \<Rightarrow> Inl e
         | Inr message \<Rightarrow> Inr [(''type'', JStr ''Error''), (''message'', JStr message)]))"

text \<open>\<open>markError(err)\<close>.  The error is normalized before anything is written, so a
  call that raises leaves the builder as it was.\<close>

definition markError ::
  "platform \<Rightarrow> thrown \<Rightarrow> EventBuilderState \<Rightarrow> error + EventBuilderState" where
  "markError pf err s =
     (if finalized s then Inr s
      else
        (case normalizeError pf err of
           Inl e \<Rightarrow> Inl e
         | Inr canonError \<Rightarrow>
             (let ev = AList.update ''error'' (JObj canonError) (event s);
                  ev = (if lookup ev ''outcome'' \<noteq> JStr ''aborted''
                        then AList.update ''outcome'' (JStr ''error'') ev else ev)
              in Inr (s\<lparr>event := ev\<rparr>))))"

text \<open>
  \<open>durationMs(startMs)\<close>, with the reading \<open>now\<close> of \<open>hrTimeMs()\<close>.  The difference,
  the product and the quotient are rounded to doubles; \<open>Math.round\<close> gives the integer
  nearest to its argument, the larger one of two.
\<close>

definition durationMs :: "platform \<Rightarrow> real \<Rightarrow> real \<Rightarrow> real" where
  "durationMs pf now startMs =
     to_double pf
       (real_of_int \<lfloor>to_double pf (to_double pf (now - startMs) * 100) + 1 / 2\<rfloor> / 100)"

text \<open>
  \<open>finalize(outcome, statusCode)\<close> returns the snapshot; the state is returned with
  it.  \<open>now\<close> is the clock at the call.
\<close>

definition finalize ::
  "platform \<Rightarrow> real \<Rightarrow> RequestOutcome \<Rightarrow> real \<Rightarrow> EventBuilderState
     \<Rightarrow> EventBuilderState \<times> obj" where
  "finalize pf now outcome statusCode s =
     (if finalized s then (s, props (snapshot (JObj (event s))))
      else
        (let s = s\<lparr>finalized := True\<rparr>;
             ev = AList.update ''duration_ms'' (JNum (durationMs pf now (startTime s))) (event s);
             ev = AList.update ''status_code'' (JNum statusCode) ev;
             ev = (if \<not> truthy (lookup ev ''outcome'') then
                     (if outcome = OAborted then AList.update ''outcome'' (JStr ''aborted'') ev
                      else if truthy (lookup ev ''error'') \<or> statusCode \<ge> 500
                           then AList.update ''outcome'' (JStr ''error'') ev
                           else AList.update ''outcome'' (JStr (outcome_str outcome)) ev)
                   else ev);
             s = s\<lparr>event := ev\<rparr>
         in (s, props (snapshot (JObj (event s))))))"

definition isFinalized :: "EventBuilderState \<Rightarrow> bool" where
  "isFinalized s = finalized s"

definition isEmitted :: "EventBuilderState \<Rightarrow> bool" where
  "isEmitted s = emitted s"

definition markEmitted :: "EventBuilderState \<Rightarrow> EventBuilderState" where
  "markEmitted s = s\<lparr>emitted := True\<rparr>"

text \<open>
  A sequence of calls made on the builder before it is finalized.  A call that raises
  leaves the builder as it was, whether the caller catches the error or not; the calls
  after it in the sequence are those that are still made.
\<close>

datatype builder_call = Enrich obj | Set string jv | MarkError thrown

fun call :: "platform \<Rightarrow> EventBuilderState \<Rightarrow> builder_call \<Rightarrow> EventBuilderState" where
  "call pf s (Enrich obj) = enrich obj s"
| "call pf s (Set path v) = set_path path v s"
| "call pf s (MarkError err) = (case markError pf err s of Inl e \<Rightarrow> s | Inr s' \<Rightarrow> s')"

definition calls :: "platform \<Rightarrow> builder_call list \<Rightarrow> EventBuilderState \<Rightarrow> EventBuilderState" where
  "calls pf cs s = foldl (call pf) s cs"

text \<open>
  The outcome policy in the words of the specification: \<open>error\<close> if an error was
  marked; else \<open>aborted\<close> if the caller forces it; else the outcome passed by the
  caller, where a status code of 500 or more gives \<open>error\<close>.
\<close>

definition outcome_policy :: "bool \<Rightarrow> RequestOutcome \<Rightarrow> real \<Rightarrow> RequestOutcome" where
  "outcome_policy errorMarked hint statusCode =
     (if errorMarked then OError
      else if hint = OAborted then OAborted
      else if statusCode \<ge> 500 then OError
      else hint)"

text \<open>A call that marks an error: a call of \<open>markError\<close> that returns.\<close>

fun marks :: "platform \<Rightarrow> builder_call \<Rightarrow> bool" where
  "marks pf (MarkError err) = (case normalizeError pf err of Inl e \<Rightarrow> False | Inr c \<Rightarrow> True)"
| "marks pf _ = False"

text \<open>
  A call that does not write the keys \<open>outcome\<close> and \<open>error\<close> of the record by
  \<open>enrich\<close> or \<open>set\<close>, and that writes no key \<open>__proto__\<close>: the object given to
  \<open>enrich\<close> has neither of the two keys and no key \<open>__proto__\<close> at any depth, the
  path given to \<open>set\<close> starts with neither and has no segment \<open>__proto__\<close>.
\<close>

fun leaves_outcome :: "builder_call \<Rightarrow> bool" where
  "leaves_outcome (Enrich obj) =
     (''outcome'' \<notin> set (keys obj) \<and> ''error'' \<notin> set (keys obj) \<and> proto_free (JObj obj))"
| "leaves_outcome (Set path v) =
     (hd (split (CHR ''.'') path) \<noteq> ''outcome'' \<and> hd (split (CHR ''.'') path) \<noteq> ''error''
      \<and> ''__proto__'' \<notin> set (split (CHR ''.'') path))"
| "leaves_outcome (MarkError err) = True"
section \<open>Lifecycle orchestrator\<close>

text \<open>
  The configuration read by the context.  \<open>emit\<close> says whether a sink
  \<open>config.emit\<close> is given; without one the default sink writes the record as a line of
  JSON to the standard output.
\<close>

record CanonConfig =
  service :: string
  version :: "string option"
  deployment_id :: "string option"
  region :: "string option"
  schema :: "CanonSchema option"
  emit :: bool
  strict :: "bool option"
  sample :: sampling
  redact :: "RedactionConfig option"

text \<open>
  What \<open>createCanonContext\<close> closes over (configuration, request id, debug flag, the
  builder and the variable \<open>emitted\<close>), together with the effects of the calls: the
  records handed to the sink \<open>config.emit\<close>, the records written to the standard output
  by the default sink, the lines written to the error stream, and the errors that
  calls have raised to their callers.
\<close>

record lifecycle =
  config :: CanonConfig
  requestId :: string
  debug :: bool
  builder :: EventBuilderState
  emitted_var :: bool
  emit_calls :: "obj list"
  stdout :: "obj list"
  stderr :: "string list"
  raised :: "error list"

definition opt_str :: "string option \<Rightarrow> jv" where
  "opt_str s = (case s of None \<Rightarrow> JUndef | Some x \<Rightarrow> JStr x)"

text \<open>
  \<open>createCanonContext(config, requestId, traceId, initialData, debug)\<close>; \<open>now\<close> is the
  reading of \<open>startTimer()\<close> and \<open>timestamp\<close> the result of \<open>isoTimestamp()\<close>.
\<close>

definition createCanonContext ::
  "CanonConfig \<Rightarrow> string \<Rightarrow> string option \<Rightarrow> obj \<Rightarrow> bool \<Rightarrow> real \<Rightarrow> string \<Rightarrow> lifecycle" where
  "createCanonContext cfg rid traceId initialData dbg now timestamp =
     (let start = now;
          baseEvent = spread
            [(''timestamp'', JStr timestamp),
             (''request_id'', JStr rid),
             (''trace_id'', opt_str traceId),
             (''service'', JStr (service cfg)),
             (''version'', opt_str (version cfg)),
             (''deployment_id'', opt_str (deployment_id cfg)),
             (''region'', opt_str (region cfg))]
            initialData
      in \<lparr>config = cfg, requestId = rid, debug = dbg,
          builder = createEventBuilder baseEvent start,
          emitted_var = False, emit_calls = [], stdout = [], stderr = [], raised = []\<rparr>)"

definition logValidationWarnings :: "string list \<Rightarrow> string \<Rightarrow> string list" where
  "logValidationWarnings ws rid =
     map (\<lambda>w. ''[canon] validation warning ('' @ rid @ ''): '' @ w @ [CHR 0x0A]) ws"

definition logValidationErrors :: "string list \<Rightarrow> string \<Rightarrow> string list" where
  "logValidationErrors es rid =
     map (\<lambda>e. ''[canon] validation error ('' @ rid @ ''): '' @ e @ [CHR 0x0A]) es"

definition normalizeSamplingConfig :: "sampling \<Rightarrow> sampling" where
  "normalizeSamplingConfig s = s"

text \<open>
  \<open>emitEvent(outcome, statusCode)\<close>, the function behind both \<open>context.finalize\<close> and
  the \<open>emit\<close> handed to the adapter.  \<open>now\<close> is the clock and \<open>random\<close> the draw of
  \<open>Math.random()\<close> at the call.  The function has no point of suspension, so a call
  runs to its end before the next signal is looked at.  It catches nothing: an error
  raised by the redaction or by the sampler ends the call where it is raised, with the
  flag set, the builder finalized and no sink invoked.
\<close>

definition emitEvent ::
  "platform \<Rightarrow> real \<Rightarrow> real \<Rightarrow> RequestOutcome \<Rightarrow> real \<Rightarrow> lifecycle \<Rightarrow> lifecycle" where
  "emitEvent pf now random outcome statusCode c =
     (if emitted_var c then c
      else
        (let c = c\<lparr>emitted_var := True\<rparr>;
             cfg = config c;
             (b, snap) = finalize pf now outcome statusCode (builder c);
             c = c\<lparr>builder := b\<rparr>
         in case applyRedaction pf snap (redact cfg) (schema cfg) of
              Inl e \<Rightarrow> c\<lparr>raised := raised c @ [e]\<rparr>
            | Inr redacted \<Rightarrow>
                (let validation = validateSchema pf redacted (schema cfg)
                                    (case strict cfg of None \<Rightarrow> False | Some b \<Rightarrow> b);
                     c = (if length (warnings validation) > 0
                          then c\<lparr>stderr := stderr c
                                   @ logValidationWarnings (warnings validation) (requestId c)\<rparr>
                          else c);
                     c = (if \<not> valid validation
                          then c\<lparr>stderr := stderr c
                                   @ logValidationErrors (errors validation) (requestId c)\<rparr>
                          else c)
                 in if \<not> valid validation \<and> strict cfg = Some True then c
                    else
                      (case (if debug c then Inr True
                             else shouldSample pf random redacted
                                    (normalizeSamplingConfig (sample cfg))) of
                         Inl e \<Rightarrow> c\<lparr>raised := raised c @ [e]\<rparr>
                       | Inr keep \<Rightarrow>
                           if \<not> keep then c
                           else
                             (let c = (if emit cfg
                                       then c\<lparr>emit_calls := emit_calls c @ [redacted]\<rparr>
                                       else c\<lparr>stdout := stdout c @ [redacted]\<rparr>)
                              in c\<lparr>builder := markEmitted (builder c)\<rparr>)))))"

text \<open>The methods \<open>enrich\<close>, \<open>set\<close> and \<open>markError\<close> of the context, with the warning of
  the builder after finalization.  What \<open>markError\<close> raises reaches the caller.\<close>

fun call_name :: "builder_call \<Rightarrow> string" where
  "call_name (Enrich _) = ''enrich''"
| "call_name (Set _ _) = ''set''"
| "call_name (MarkError _) = ''markError''"

fun call_error :: "platform \<Rightarrow> EventBuilderState \<Rightarrow> builder_call \<Rightarrow> error list" where
  "call_error pf s (MarkError err) = (case markError pf err s of Inl e \<Rightarrow> [e] | Inr s' \<Rightarrow> [])"
| "call_error pf s _ = []"

definition context_call :: "platform \<Rightarrow> builder_call \<Rightarrow> lifecycle \<Rightarrow> lifecycle" where
  "context_call pf bc c =
     c\<lparr>builder := call pf (builder c) bc,
       stderr := stderr c @
         (if finalized (builder c)
          then [''[canon] warning: '' @ call_name bc @ ''() called after finalization, ignoring''
                @ [CHR 0x0A]]
          else []),
       raised := raised c @ call_error pf (builder c) bc\<rparr>"

text \<open>
  What reaches one lifecycle instance: a completion or abort signal (outcome and status
  code, with the clock and the random draw at its delivery) or a call of the context by
  the request handler.
\<close>

datatype input =
    Signal RequestOutcome real real real
  | Call builder_call

fun deliver :: "platform \<Rightarrow> lifecycle \<Rightarrow> input \<Rightarrow> lifecycle" where
  "deliver pf c (Signal outcome statusCode now random) = emitEvent pf now random outcome statusCode c"
| "deliver pf c (Call bc) = context_call pf bc c"

definition run :: "platform \<Rightarrow> input list \<Rightarrow> lifecycle \<Rightarrow> lifecycle" where
  "run pf ins c = foldl (deliver pf) c ins"

text \<open>The number of times a sink has been invoked.\<close>

definition sink_count :: "lifecycle \<Rightarrow> nat" where
  "sink_count c = length (emit_calls c) + length (stdout c)"

fun is_Signal :: "input \<Rightarrow> bool" where
  "is_Signal (Signal _ _ _ _) = True"
| "is_Signal (Call _) = False"

section \<open>The store\<close>

text \<open>
  Whether a function changes an object it was given, and whether what it returns shares
  objects with its argument, cannot be said about values; it is said about the store.
  A store is the list of the objects and arrays allocated so far, an address is a
  position in it, and a value of the store is a primitive or a reference.  Allocation
  appends; an assignment to a property replaces the object at its address.
\<close>

type_synonym addr = nat

datatype hval = HUndef | HNull | HBool bool | HNum real | HStr string | HRef addr

datatype hobj = HObject "(string \<times> hval) list" | HArray "hval list"

type_synonym heap = "hobj list"

definition obj_at :: "heap \<Rightarrow> addr \<Rightarrow> hobj option" where
  "obj_at h a = (if a < length h then Some (h ! a) else None)"

definition alloc :: "heap \<Rightarrow> hobj \<Rightarrow> heap \<times> addr" where
  "alloc h ob = (h @ [ob], length h)"

text \<open>The own properties of the plain object at an address, as \<open>{ ...o }\<close> copies them.\<close>

definition fields_of :: "heap \<Rightarrow> addr \<Rightarrow> (string \<times> hval) list" where
  "fields_of h a = (case obj_at h a of Some (HObject fs) \<Rightarrow> fs | _ \<Rightarrow> [])"

definition lookup_h :: "(string \<times> hval) list \<Rightarrow> string \<Rightarrow> hval" where
  "lookup_h fs k = (case map_of fs k of Some v \<Rightarrow> v | None \<Rightarrow> HUndef)"

text \<open>\<open>o[k] = v\<close> for the plain object at address \<open>a\<close>; the own properties after
  the assignment are those that \<open>put\<close> gives.\<close>

definition assign :: "heap \<Rightarrow> addr \<Rightarrow> string \<Rightarrow> hval \<Rightarrow> heap" where
  "assign h a k v =
     (case obj_at h a of
        Some (HObject fs) \<Rightarrow> h[a := HObject (put k v fs)]
      | _ \<Rightarrow> h)"

fun addr_of :: "hval \<Rightarrow> addr" where
  "addr_of (HRef a) = a"
| "addr_of _ = 0"

definition isPlainObject_h :: "heap \<Rightarrow> hval \<Rightarrow> bool" where
  "isPlainObject_h h v =
     (case v of
        HRef a \<Rightarrow> (case obj_at h a of Some (HObject fs) \<Rightarrow> True | _ \<Rightarrow> False)
      | _ \<Rightarrow> False)"

text \<open>
  What a read \<open>o[k]\<close> returns in the store: a value of the store or a built-in object.
  A member of a built-in object is a primitive or a built-in object again.
\<close>

datatype href = HData hval | HBuiltin builtin

fun href_of :: "ref \<Rightarrow> href" where
  "href_of (Builtin b) = HBuiltin b"
| "href_of (Data JNull) = HData HNull"
| "href_of (Data (JBool b)) = HData (HBool b)"
| "href_of (Data (JNum r)) = HData (HNum r)"
| "href_of (Data (JStr s)) = HData (HStr s)"
| "href_of (Data _) = HData HUndef"

fun is_object_h :: "href \<Rightarrow> bool" where
  "is_object_h (HData (HRef a)) = True"
| "is_object_h (HBuiltin ObjectPrototype) = True"
| "is_object_h (HBuiltin ArrayPrototype) = True"
| "is_object_h _ = False"

fun get_prop_h :: "platform \<Rightarrow> heap \<Rightarrow> href \<Rightarrow> string \<Rightarrow> href" where
  "get_prop_h pf h (HData (HRef a)) k =
     (case obj_at h a of
        Some (HObject fs) \<Rightarrow>
          (case map_of fs k of
             Some v \<Rightarrow> HData v
           | None \<Rightarrow> href_of (inherited_object (Builtin ObjectPrototype) k))
      | Some (HArray vs) \<Rightarrow>
          (if k = ''length'' then HData (HNum (real (length vs)))
           else (case array_index k (length vs) of
                   Some i \<Rightarrow> HData (vs ! i)
                 | None \<Rightarrow> href_of (inherited_array pf (Builtin ArrayPrototype) k)))
      | None \<Rightarrow> HData HUndef)"
| "get_prop_h pf h (HBuiltin b) k = href_of (get_prop pf (Builtin b) k)"
| "get_prop_h pf h _ k = HData HUndef"

section \<open>The path and merge utility on the store\<close>




text \<open>
  \<open>setPath\<close> on the store.  Under a segment \<open>__proto__\<close> that is no own key the
  object allocated for the child is not stored in a property (it becomes the
  prototype); the rest of the path is written into it.
\<close>

fun setPath_loop_h :: "heap \<Rightarrow> addr \<Rightarrow> string list \<Rightarrow> hval \<Rightarrow> heap" where
  "setPath_loop_h h current [] v = h"
| "setPath_loop_h h current [key] v = assign h current key v"
| "setPath_loop_h h current (key # rest) v =
     (let existing = lookup_h (fields_of h current) key
      in case alloc h (HObject (if isPlainObject_h h existing
                                then fields_of h (addr_of existing) else [])) of
           (h1, child) \<Rightarrow> setPath_loop_h (assign h1 current key (HRef child)) child rest v)"

definition setPath_h :: "heap \<Rightarrow> addr \<Rightarrow> string \<Rightarrow> hval \<Rightarrow> heap \<times> addr" where
  "setPath_h h obj path v =
     (case alloc h (HObject (fields_of h obj)) of
        (h1, result) \<Rightarrow> (setPath_loop_h h1 result (split (CHR ''.'') path) v, result))"

text \<open>\<open>getPath\<close> on the store.\<close>

fun getPath_loop_h :: "platform \<Rightarrow> heap \<Rightarrow> href \<Rightarrow> string list \<Rightarrow> href" where
  "getPath_loop_h pf h current [] = current"
| "getPath_loop_h pf h current (part # parts) =
     (if \<not> is_object_h current then HData HUndef
      else getPath_loop_h pf h (get_prop_h pf h current part) parts)"

definition getPath_h :: "platform \<Rightarrow> heap \<Rightarrow> addr \<Rightarrow> string \<Rightarrow> href" where
  "getPath_h pf h obj path = getPath_loop_h pf h (HData (HRef obj)) (split (CHR ''.'') path)"
section \<open>Values in the store\<close>

text \<open>
  \<open>repr_on A h v t\<close>: in the store \<open>h\<close> the value \<open>v\<close> stands for the value \<open>t\<close>, and
  every object and array visited on the way lies at an address in \<open>A\<close>.
\<close>

fun repr_on :: "addr set \<Rightarrow> heap \<Rightarrow> hval \<Rightarrow> jv \<Rightarrow> bool" where
  "repr_on A h v JUndef = (v = HUndef)"
| "repr_on A h v JNull = (v = HNull)"
| "repr_on A h v (JBool b) = (v = HBool b)"
| "repr_on A h v (JNum r) = (v = HNum r)"
| "repr_on A h v (JStr s) = (v = HStr s)"
| "repr_on A h v (JArr ts) =
     (case v of
        HRef a \<Rightarrow>
          a \<in> A \<and>
          (case obj_at h a of
             Some (HArray vs) \<Rightarrow> list_all2 (\<lambda>x t. repr_on A h x t) vs ts
           | _ \<Rightarrow> False)
      | _ \<Rightarrow> False)"
| "repr_on A h v (JObj kts) =
     (case v of
        HRef a \<Rightarrow>
          a \<in> A \<and>
          (case obj_at h a of
             Some (HObject fs) \<Rightarrow>
               list_all2 (\<lambda>f kt. fst f = fst kt \<and> repr_on A h (snd f) (snd kt)) fs kts
           | _ \<Rightarrow> False)
      | _ \<Rightarrow> False)"

abbreviation repr :: "heap \<Rightarrow> hval \<Rightarrow> jv \<Rightarrow> bool" where
  "repr h v t \<equiv> repr_on UNIV h v t"

text \<open>The same for the properties of an object, key by key.\<close>

definition frel :: "addr set \<Rightarrow> heap \<Rightarrow> (string \<times> hval) list \<Rightarrow> obj \<Rightarrow> bool" where
  "frel A h fs kts = list_all2 (\<lambda>f kt. fst f = fst kt \<and> repr_on A h (snd f) (snd kt)) fs kts"

text \<open>The nesting depth of a value.\<close>

fun height :: "jv \<Rightarrow> nat" where
  "height (JArr ts) = Suc (fold max (map height ts) 0)"
| "height (JObj kts) = Suc (fold max (map (\<lambda>kt. height (snd kt)) kts) 0)"
| "height _ = 0"

text \<open>
  Reading a value out of the store, to the depth given by the first argument;
  \<open>None\<close> when the structure is deeper or a reference dangles.
\<close>

fun reify :: "nat \<Rightarrow> heap \<Rightarrow> hval \<Rightarrow> jv option" where
  "reify n h HUndef = Some JUndef"
| "reify n h HNull = Some JNull"
| "reify n h (HBool b) = Some (JBool b)"
| "reify n h (HNum r) = Some (JNum r)"
| "reify n h (HStr s) = Some (JStr s)"
| "reify 0 h (HRef a) = None"
| "reify (Suc n) h (HRef a) =
     (case obj_at h a of
        None \<Rightarrow> None
      | Some (HArray vs) \<Rightarrow> map_option JArr (those (map (reify n h) vs))
      | Some (HObject fs) \<Rightarrow>
          map_option JObj (those (map (\<lambda>f. map_option (Pair (fst f)) (reify n h (snd f))) fs)))"

text \<open>Building a value in the store out of fresh objects.\<close>

fun alloc_tree :: "heap \<Rightarrow> jv \<Rightarrow> heap \<times> hval"
  and alloc_trees :: "heap \<Rightarrow> jv list \<Rightarrow> heap \<times> hval list"
  and alloc_fields :: "heap \<Rightarrow> (string \<times> jv) list \<Rightarrow> heap \<times> (string \<times> hval) list" where
  "alloc_tree h JUndef = (h, HUndef)"
| "alloc_tree h JNull = (h, HNull)"
| "alloc_tree h (JBool b) = (h, HBool b)"
| "alloc_tree h (JNum r) = (h, HNum r)"
| "alloc_tree h (JStr s) = (h, HStr s)"
| "alloc_tree h (JArr ts) =
     (case alloc_trees h ts of
        (h1, vs) \<Rightarrow> (case alloc h1 (HArray vs) of (h2, a) \<Rightarrow> (h2, HRef a)))"
| "alloc_tree h (JObj kts) =
     (case alloc_fields h kts of
        (h1, fs) \<Rightarrow> (case alloc h1 (HObject fs) of (h2, a) \<Rightarrow> (h2, HRef a)))"
| "alloc_trees h [] = (h, [])"
| "alloc_trees h (t # ts) =
     (case alloc_tree h t of
        (h1, v) \<Rightarrow> (case alloc_trees h1 ts of (h2, vs) \<Rightarrow> (h2, v # vs)))"
| "alloc_fields h [] = (h, [])"
| "alloc_fields h (kt # kts) =
     (case alloc_tree h (snd kt) of
        (h1, v) \<Rightarrow> (case alloc_fields h1 kts of (h2, fs) \<Rightarrow> (h2, (fst kt, v) # fs)))"

text \<open>
  \<open>snapshot\<close> on the store: \<open>structuredClone\<close> reads the value and builds it anew.
  The first argument bounds the depth to which the value is read.
\<close>

definition snapshot_h :: "nat \<Rightarrow> heap \<Rightarrow> hval \<Rightarrow> (heap \<times> hval) option" where
  "snapshot_h n h v = map_option (alloc_tree h) (reify n h v)"

section \<open>The redaction engine on the store\<close>

text \<open>
  \<open>String(v)\<close> for a value of the store.  \<open>seen\<close> holds the arrays being joined; an
  array met again inside itself is rendered as the empty string.  An object with an
  own property \<open>toString\<close> raises, as in \<open>to_string\<close>.
\<close>

function to_string_h :: "platform \<Rightarrow> heap \<Rightarrow> addr list \<Rightarrow> hval \<Rightarrow> error + string" where
  "to_string_h pf h seen HUndef = Inr ''undefined''"
| "to_string_h pf h seen HNull = Inr ''null''"
| "to_string_h pf h seen (HBool b) = Inr (if b then ''true'' else ''false'')"
| "to_string_h pf h seen (HNum r) = Inr (num_to_string pf r)"
| "to_string_h pf h seen (HStr s) = Inr s"
| "to_string_h pf h seen (HRef a) =
     (case obj_at h a of
        Some (HArray vs) \<Rightarrow>
          (if a \<in> set seen then Inr []
           else (case collect (map (\<lambda>x. if x = HUndef \<or> x = HNull then Inr []
                                         else to_string_h pf h (a # seen) x) vs) of
                   Inl e \<Rightarrow> Inl e
                 | Inr ps \<Rightarrow> Inr (join '','' ps)))
      | Some (HObject fs) \<Rightarrow>
          (if ''toString'' \<in> set (keys fs) then Inl TypeError else Inr ''[object Object]'')
      | None \<Rightarrow> Inr ''[object Object]'')"
  by pat_completeness auto
termination
proof (relation "measure (\<lambda>(pf, h, seen, v). card ({..<length h} - set seen))")
  show "wf (measure (\<lambda>(pf, h, seen, v). card ({..<length h} - set seen)))"
    by simp
next
  fix pf :: platform and h :: heap and seen :: "addr list" and a :: addr
    and x2 :: hobj and x2a :: "hval list" and x :: hval
  assume "obj_at h a = Some x2" and "a \<notin> set seen"
  then have "a \<in> {..<length h} - set seen"
    by (simp add: obj_at_def split: if_splits)
  then have "{..<length h} - set (a # seen) \<subset> {..<length h} - set seen"
    by auto
  then have "card ({..<length h} - set (a # seen)) < card ({..<length h} - set seen)"
    by (intro psubset_card_mono) simp_all
  then show "((pf, h, a # seen, x), pf, h, seen, HRef a)
      \<in> measure (\<lambda>(pf, h, seen, v). card ({..<length h} - set seen))"
    by simp
qed

fun to_string_href :: "platform \<Rightarrow> heap \<Rightarrow> href \<Rightarrow> error + string" where
  "to_string_href pf h (HData v) = to_string_h pf h [] v"
| "to_string_href pf h (HBuiltin b) = to_string_ref pf (Builtin b)"

definition redactValue_h ::
  "platform \<Rightarrow> heap \<Rightarrow> href \<Rightarrow> RedactionStrategy \<Rightarrow> error + hval" where
  "redactValue_h pf h v strat =
     (if v = HData HNull then Inr HNull
      else if v = HData HUndef then Inr HUndef
      else
        (case to_string_href pf h v of
           Inl e \<Rightarrow> Inl e
         | Inr stringValue \<Rightarrow>
             (case strat of
                Mask \<Rightarrow> Inr (HStr (maskValue stringValue))
              | Hash \<Rightarrow> Inr (HStr (hashValue pf stringValue))
              | Drop \<Rightarrow> Inr (HStr ''[REDACTED]''))))"

text \<open>
  \<open>applyRedaction\<close> on the store: \<open>ev\<close> is the address of the record given.  The
  result is the store after the call, with the address of the record returned or with
  the error raised; \<open>None\<close> when the depth bound of the clone is too small.  In the
  loop, \<open>Inr\<close> holds the address of \<open>result\<close>.
\<close>

definition applyRedaction_h ::
  "nat \<Rightarrow> platform \<Rightarrow> heap \<Rightarrow> addr \<Rightarrow> RedactionConfig option \<Rightarrow> CanonSchema option
     \<Rightarrow> (heap \<times> (error + addr)) option" where
  "applyRedaction_h n pf h ev cfg sch =
     (case snapshot_h n h (HRef ev) of
        None \<Rightarrow> None
      | Some (h1, redacted) \<Rightarrow>
          (case cfg of
             None \<Rightarrow> Some (h1, Inr (addr_of redacted))
           | Some cfg \<Rightarrow>
               if \<not> enabled cfg then Some (h1, Inr (addr_of redacted))
               else
                 (let globalStrategy = (case strategy cfg of None \<Rightarrow> Mask | Some s \<Rightarrow> s);
                      fieldsToRedact = (if length (redact_fields cfg) > 0 then redact_fields cfg
                                        else DEFAULT_SENSITIVE_FIELDS)
                  in Some (foldl
                       (\<lambda>(h, state) path.
                          case state of
                            Inl e \<Rightarrow> (h, Inl e)
                          | Inr result \<Rightarrow>
                              (let v = getPath_h pf h result path
                               in if v \<noteq> HData HUndef
                                  then (case redactValue_h pf h v
                                               (fieldStrategy sch path globalStrategy) of
                                          Inl e \<Rightarrow> (h, Inl e)
                                        | Inr redactedValue \<Rightarrow>
                                            (case setPath_h h result path redactedValue of
                                               (h', result') \<Rightarrow> (h', Inr result')))
                                  else (h, Inr result)))
                       (h1, Inr (addr_of redacted)) fieldsToRedact))))"
section \<open>Properties of the string functions\<close>

lemma split_not_Nil: "split c s \<noteq> []"
  by (induction s) (auto split: list.splits)

lemma split_no_sep: "c \<notin> set s \<Longrightarrow> split c s = [s]"
  by (induction s) auto

lemma split_at_sep: "c \<notin> set l \<Longrightarrow> split c (l @ c # d) = l # split c d"
  by (induction l) auto

lemma split_two: "c \<in> set s \<Longrightarrow> \<exists>a b r. split c s = a # b # r"
proof -
  assume "c \<in> set s"
  then obtain l d where s: "s = l @ c # d" and l: "c \<notin> set l"
    by (meson split_list_first)
  obtain b r where "split c d = b # r"
    using split_not_Nil [of c d] by (cases "split c d") auto
  with s l show ?thesis
    by (simp add: split_at_sep)
qed

section \<open>Properties of the path utility\<close>

lemma getPath_loop_undef [simp]: "getPath_loop pf (Data JUndef) ps = Data JUndef"
  by (cases ps) auto

lemma hasPath_loop_iff:
  "hasPath_loop pf v ps \<longleftrightarrow>
     (\<forall>i < length ps. is_object (getPath_loop pf v (take i ps))
                       \<and> has_prop pf (getPath_loop pf v (take i ps)) (ps ! i))"
proof (induction ps arbitrary: v)
  case Nil
  then show ?case by simp
next
  case (Cons p ps)
  show ?case
  proof (cases "is_object v \<and> has_prop pf v p")
    case False
    then have "\<not> hasPath_loop pf v (p # ps)" by auto
    moreover have "\<not> (is_object (getPath_loop pf v (take 0 (p # ps)))
                      \<and> has_prop pf (getPath_loop pf v (take 0 (p # ps))) ((p # ps) ! 0))"
      using False by simp
    ultimately show ?thesis by blast
  next
    case True
    have "hasPath_loop pf v (p # ps) \<longleftrightarrow> hasPath_loop pf (get_prop pf v p) ps"
      using True by simp
    also have "\<dots> \<longleftrightarrow> (\<forall>i < length ps.
        is_object (getPath_loop pf (get_prop pf v p) (take i ps))
        \<and> has_prop pf (getPath_loop pf (get_prop pf v p) (take i ps)) (ps ! i))"
      by (rule Cons.IH)
    also have "\<dots> \<longleftrightarrow> (\<forall>i < length (p # ps).
        is_object (getPath_loop pf v (take i (p # ps)))
        \<and> has_prop pf (getPath_loop pf v (take i (p # ps))) ((p # ps) ! i))"
      (is "?L \<longleftrightarrow> ?R")
    proof
      assume L: ?L
      show ?R
      proof (intro allI impI)
        fix i assume "i < length (p # ps)"
        then show "is_object (getPath_loop pf v (take i (p # ps)))
            \<and> has_prop pf (getPath_loop pf v (take i (p # ps))) ((p # ps) ! i)"
          using True L by (cases i) auto
      qed
    next
      assume R: ?R
      show ?L
      proof (intro allI impI)
        fix i assume "i < length ps"
        then have "Suc i < length (p # ps)" by simp
        from R [rule_format, OF this] True
        show "is_object (getPath_loop pf (get_prop pf v p) (take i ps))
            \<and> has_prop pf (getPath_loop pf (get_prop pf v p) (take i ps)) (ps ! i)"
          by simp
      qed
    qed
    finally show ?thesis .
  qed
qed

lemma has_prop_obj:
  "has_prop pf (Data (JObj kvs)) k \<longleftrightarrow> k \<in> fst ` set kvs \<or> k \<in> set OBJECT_PROTOTYPE"
  by (simp add: keys_def)

lemma hasPath_single:
  "CHR ''.'' \<notin> set k \<Longrightarrow> hasPath pf ev k \<longleftrightarrow> k \<in> fst ` set ev \<or> k \<in> set OBJECT_PROTOTYPE"
  by (simp add: hasPath_def split_no_sep has_prop_obj del: has_prop.simps)

lemma getPath_single:
  "CHR ''.'' \<notin> set k \<Longrightarrow> getPath pf ev k = get_prop pf (Data (JObj ev)) k"
  by (simp add: getPath_def split_no_sep)

lemma get_prop_own: "k \<in> fst ` set kvs \<Longrightarrow> get_prop pf (Data (JObj kvs)) k = Data (lookup kvs k)"
  by (auto simp: lookup_def map_of_eq_None_iff split: option.splits)

lemma get_prop_absent:
  "k \<notin> fst ` set kvs \<Longrightarrow> k \<notin> set OBJECT_PROTOTYPE
     \<Longrightarrow> get_prop pf (Data (JObj kvs)) k = Data JUndef"
  by (auto simp: inherited_object_def OBJECT_PROTOTYPE_def map_of_eq_None_iff
           split: option.splits dest!: map_of_SomeD intro: rev_image_eqI)

lemma lookup_update: "lookup (AList.update k v kvs) k' = (if k' = k then v else lookup kvs k')"
  by (simp add: lookup_def update_conv')






lemma put_setter: "''__proto__'' \<notin> fst ` set kvs \<Longrightarrow> put ''__proto__'' v kvs = kvs"
  by (simp add: put_def keys_def)

lemma lookup_put_other: "k' \<noteq> k \<Longrightarrow> lookup (put k v kvs) k' = lookup kvs k'"
  by (simp add: put_def lookup_update)


lemma mergeDeep_loop:
  "depth < MAX_MERGE_DEPTH \<Longrightarrow>
   mergeDeep target source depth =
     foldl (\<lambda>r key. put key
              (if isPlainObject (lookup source key) \<and> isPlainObject (lookup r key)
               then JObj (mergeDeep (props (lookup r key)) (props (lookup source key)) (depth + 1))
               else lookup source key) r)
       target (keys source)"
proof -
  assume d: "depth < MAX_MERGE_DEPTH"
  have "(\<lambda>result key.
           let sourceValue = lookup source key;
               targetValue = lookup result key
           in if isPlainObject sourceValue \<and> isPlainObject targetValue
              then put key
                     (JObj (mergeDeep (props targetValue) (props sourceValue) (depth + 1)))
                     result
              else put key sourceValue result)
     = (\<lambda>r key. put key
              (if isPlainObject (lookup source key) \<and> isPlainObject (lookup r key)
               then JObj (mergeDeep (props (lookup r key)) (props (lookup source key)) (depth + 1))
               else lookup source key) r)"
    by (auto simp: fun_eq_iff Let_def)
  with d show ?thesis
    by (subst mergeDeep.simps) simp
qed





text \<open>
  Claim C7, as stated: \<open>hasPath\<close> is true only if every segment of the path is an own
  key of the corresponding intermediate object.  The test in the source is
  \<open>part in current\<close>, which also finds what an object inherits: the empty record has
  no own key, and \<open>hasPath\<close> finds \<open>toString\<close> in it.
\<close>

theorem hasPath_own_keys_counterexample:
  "hasPath example_platform [] ''toString'' \<and> ''toString'' \<notin> set (own_keys (JObj []))"
  by code_simp

text \<open>
  Claim C7, amended.  \<open>hasPath\<close> is true exactly when every segment of the path is a
  property, own or inherited through the prototype chain, of the object or array that
  the preceding segments lead to.  For a one-segment path into a record this means: the
  key is an own key or a member of \<open>Object.prototype\<close>.  The value stored under a key
  plays no role: a key present with the value \<open>undefined\<close> or \<open>null\<close> gives true and a
  key neither own nor inherited gives false, although \<open>getPath\<close> returns \<open>undefined\<close>
  for the absent key and for the key holding \<open>undefined\<close> alike.
\<close>

theorem hasPath_in_operator:
  "(hasPath pf ev path \<longleftrightarrow>
      (\<forall>i < length (split (CHR ''.'') path).
         is_object (getPath_loop pf (Data (JObj ev)) (take i (split (CHR ''.'') path)))
         \<and> has_prop pf (getPath_loop pf (Data (JObj ev)) (take i (split (CHR ''.'') path)))
             (split (CHR ''.'') path ! i)))
   \<and> (CHR ''.'' \<notin> set k \<longrightarrow>
        (hasPath pf rest k \<longleftrightarrow> k \<in> set (own_keys (JObj rest)) \<or> k \<in> set OBJECT_PROTOTYPE)
        \<and> hasPath pf ((k, JUndef) # rest) k \<and> hasPath pf ((k, JNull) # rest) k
        \<and> getPath pf ((k, JUndef) # rest) k = Data JUndef
        \<and> (k \<notin> set (own_keys (JObj rest)) \<and> k \<notin> set OBJECT_PROTOTYPE \<longrightarrow>
             \<not> hasPath pf rest k \<and> getPath pf rest k = Data JUndef))"
proof -
  have loop: "hasPath pf ev path \<longleftrightarrow>
      (\<forall>i < length (split (CHR ''.'') path).
         is_object (getPath_loop pf (Data (JObj ev)) (take i (split (CHR ''.'') path)))
         \<and> has_prop pf (getPath_loop pf (Data (JObj ev)) (take i (split (CHR ''.'') path)))
             (split (CHR ''.'') path ! i))"
    unfolding hasPath_def hasPath_loop_iff ..
  have single: "(hasPath pf rest k \<longleftrightarrow> k \<in> set (own_keys (JObj rest)) \<or> k \<in> set OBJECT_PROTOTYPE)
        \<and> hasPath pf ((k, JUndef) # rest) k \<and> hasPath pf ((k, JNull) # rest) k
        \<and> getPath pf ((k, JUndef) # rest) k = Data JUndef
        \<and> (k \<notin> set (own_keys (JObj rest)) \<and> k \<notin> set OBJECT_PROTOTYPE \<longrightarrow>
             \<not> hasPath pf rest k \<and> getPath pf rest k = Data JUndef)"
    if "CHR ''.'' \<notin> set k"
  proof -
    have own: "set (own_keys (JObj rest)) = fst ` set rest"
      by (simp add: keys_def)
    have g: "getPath pf ((k, JUndef) # rest) k = Data JUndef"
      unfolding getPath_single [OF that] by simp
    have h: "hasPath pf ((k, JUndef) # rest) k" "hasPath pf ((k, JNull) # rest) k"
      unfolding hasPath_single [OF that] by simp_all
    have a: "\<not> hasPath pf rest k \<and> getPath pf rest k = Data JUndef"
      if "k \<notin> fst ` set rest" "k \<notin> set OBJECT_PROTOTYPE"
      unfolding hasPath_single [OF \<open>CHR ''.'' \<notin> set k\<close>]
        getPath_single [OF \<open>CHR ''.'' \<notin> set k\<close>] get_prop_absent [OF that]
      using that by blast
    show ?thesis
      unfolding own using g h a hasPath_single [OF that] by blast
  qed
  from loop single show ?thesis by blast
qed

theorem hasPath_in_operator_witness:
  "hasPath example_platform [(''user'', JObj [(''email'', JUndef)]), (''tags'', JArr [JNull])] ''user.email''
   \<and> hasPath example_platform [(''user'', JObj [(''email'', JUndef)]), (''tags'', JArr [JNull])] ''tags.0''
   \<and> hasPath example_platform [(''user'', JObj [(''email'', JUndef)]), (''tags'', JArr [JNull])] ''tags.push''
   \<and> \<not> hasPath example_platform [(''user'', JObj [(''email'', JUndef)]), (''tags'', JArr [JNull])] ''user.phone''
   \<and> CHR ''.'' \<notin> set ''service''
   \<and> hasPath example_platform [(''service'', JUndef)] ''service''
   \<and> hasPath example_platform [(''service'', JNull)] ''service''
   \<and> ''service'' \<notin> set (own_keys (JObj [])) \<and> ''service'' \<notin> set OBJECT_PROTOTYPE
   \<and> \<not> hasPath example_platform [] ''service''
   \<and> getPath example_platform [] ''service'' = Data JUndef"
proof -
  have a: "hasPath example_platform [(''user'', JObj [(''email'', JUndef)]), (''tags'', JArr [JNull])] ''user.email''"
    by code_simp
  have b: "hasPath example_platform [(''user'', JObj [(''email'', JUndef)]), (''tags'', JArr [JNull])] ''tags.0''"
    by code_simp
  have b': "hasPath example_platform [(''user'', JObj [(''email'', JUndef)]), (''tags'', JArr [JNull])] ''tags.push''"
    by code_simp
  have c: "\<not> hasPath example_platform [(''user'', JObj [(''email'', JUndef)]), (''tags'', JArr [JNull])] ''user.phone''"
    by code_simp
  have d: "''service'' \<notin> set (own_keys (JObj [])) \<and> ''service'' \<notin> set OBJECT_PROTOTYPE"
    by code_simp
  show ?thesis
    using a b b' c d
      hasPath_in_operator [where k = "''service''" and rest = "[]" and ev = "[]"
        and path = "''x''" and pf = example_platform]
    by simp
qed
section \<open>Properties of the schema validator\<close>

lemma foldl_push:
  "foldl (\<lambda>acc x. if P x then acc @ [g x] else acc) acc xs = acc @ map g (filter P xs)"
  by (induction xs arbitrary: acc) auto

lemma validateSchema_None:
  "validateSchema pf ev None st =
     \<lparr>valid = (\<forall>f \<in> set BUILT_IN_REQUIRED. hasPath pf ev f),
      errors = map (\<lambda>f. ''Missing required built-in field: '' @ f)
                   (filter (\<lambda>f. \<not> hasPath pf ev f) BUILT_IN_REQUIRED),
      warnings = []\<rparr>"
  by (simp add: validateSchema_def Let_def foldl_push filter_empty_conv)

text \<open>
  Claim C10.  Without a schema the result has no warnings, its errors are the
  messages for the built-in required fields that \<open>hasPath\<close> does not find, in the order
  of the list, and it is valid exactly when \<open>hasPath\<close> finds all eight; the strict flag
  does not enter the result.
\<close>

theorem validateSchema_without_schema:
  "warnings (validateSchema pf ev None st) = []
   \<and> (valid (validateSchema pf ev None st) \<longleftrightarrow>
        hasPath pf ev ''timestamp'' \<and> hasPath pf ev ''request_id'' \<and> hasPath pf ev ''service''
        \<and> hasPath pf ev ''method'' \<and> hasPath pf ev ''path'' \<and> hasPath pf ev ''status_code''
        \<and> hasPath pf ev ''duration_ms'' \<and> hasPath pf ev ''outcome'')
   \<and> errors (validateSchema pf ev None st) =
        map (\<lambda>f. ''Missing required built-in field: '' @ f)
            (filter (\<lambda>f. \<not> hasPath pf ev f)
               [''timestamp'', ''request_id'', ''service'', ''method'', ''path'',
                ''status_code'', ''duration_ms'', ''outcome''])
   \<and> validateSchema pf ev None st = validateSchema pf ev None (\<not> st)"
  unfolding validateSchema_None by (simp add: BUILT_IN_REQUIRED_def)

theorem validateSchema_without_schema_witness:
  "valid (validateSchema example_platform
      [(''timestamp'', JStr ''t''), (''request_id'', JStr ''r''), (''service'', JStr ''s''),
       (''method'', JStr ''GET''), (''path'', JStr ''/''), (''status_code'', JStr ''200''),
       (''duration_ms'', JNull), (''outcome'', JUndef), (''extra'', JNum 1)] None True)
   \<and> \<not> valid (validateSchema example_platform [(''timestamp'', JStr ''t'')] None False)
   \<and> errors (validateSchema example_platform
        [(''timestamp'', JStr ''t''), (''request_id'', JStr ''r''), (''method'', JStr ''GET''),
         (''path'', JStr ''/''), (''status_code'', JNum 200), (''duration_ms'', JNum 1),
         (''outcome'', JStr ''success'')] None False)
       = [''Missing required built-in field: service'']"
proof -
  have a:
    "hasPath example_platform
      [(''timestamp'', JStr ''t''), (''request_id'', JStr ''r''), (''service'', JStr ''s''),
       (''method'', JStr ''GET''), (''path'', JStr ''/''), (''status_code'', JStr ''200''),
       (''duration_ms'', JNull), (''outcome'', JUndef), (''extra'', JNum 1)] ''timestamp''"
    "hasPath example_platform
      [(''timestamp'', JStr ''t''), (''request_id'', JStr ''r''), (''service'', JStr ''s''),
       (''method'', JStr ''GET''), (''path'', JStr ''/''), (''status_code'', JStr ''200''),
       (''duration_ms'', JNull), (''outcome'', JUndef), (''extra'', JNum 1)] ''request_id''"
    "hasPath example_platform
      [(''timestamp'', JStr ''t''), (''request_id'', JStr ''r''), (''service'', JStr ''s''),
       (''method'', JStr ''GET''), (''path'', JStr ''/''), (''status_code'', JStr ''200''),
       (''duration_ms'', JNull), (''outcome'', JUndef), (''extra'', JNum 1)] ''service''"
    "hasPath example_platform
      [(''timestamp'', JStr ''t''), (''request_id'', JStr ''r''), (''service'', JStr ''s''),
       (''method'', JStr ''GET''), (''path'', JStr ''/''), (''status_code'', JStr ''200''),
       (''duration_ms'', JNull), (''outcome'', JUndef), (''extra'', JNum 1)] ''method''"
    "hasPath example_platform
      [(''timestamp'', JStr ''t''), (''request_id'', JStr ''r''), (''service'', JStr ''s''),
       (''method'', JStr ''GET''), (''path'', JStr ''/''), (''status_code'', JStr ''200''),
       (''duration_ms'', JNull), (''outcome'', JUndef), (''extra'', JNum 1)] ''path''"
    "hasPath example_platform
      [(''timestamp'', JStr ''t''), (''request_id'', JStr ''r''), (''service'', JStr ''s''),
       (''method'', JStr ''GET''), (''path'', JStr ''/''), (''status_code'', JStr ''200''),
       (''duration_ms'', JNull), (''outcome'', JUndef), (''extra'', JNum 1)] ''status_code''"
    "hasPath example_platform
      [(''timestamp'', JStr ''t''), (''request_id'', JStr ''r''), (''service'', JStr ''s''),
       (''method'', JStr ''GET''), (''path'', JStr ''/''), (''status_code'', JStr ''200''),
       (''duration_ms'', JNull), (''outcome'', JUndef), (''extra'', JNum 1)] ''duration_ms''"
    "hasPath example_platform
      [(''timestamp'', JStr ''t''), (''request_id'', JStr ''r''), (''service'', JStr ''s''),
       (''method'', JStr ''GET''), (''path'', JStr ''/''), (''status_code'', JStr ''200''),
       (''duration_ms'', JNull), (''outcome'', JUndef), (''extra'', JNum 1)] ''outcome''"
    by code_simp+
  have b: "\<not> hasPath example_platform [(''timestamp'', JStr ''t'')] ''request_id''"
    by code_simp
  have c:
    "hasPath example_platform
      [(''timestamp'', JStr ''t''), (''request_id'', JStr ''r''), (''method'', JStr ''GET''),
         (''path'', JStr ''/''), (''status_code'', JNum 200), (''duration_ms'', JNum 1),
         (''outcome'', JStr ''success'')] ''timestamp''"
    "hasPath example_platform
      [(''timestamp'', JStr ''t''), (''request_id'', JStr ''r''), (''method'', JStr ''GET''),
         (''path'', JStr ''/''), (''status_code'', JNum 200), (''duration_ms'', JNum 1),
         (''outcome'', JStr ''success'')] ''request_id''"
    "\<not> hasPath example_platform
      [(''timestamp'', JStr ''t''), (''request_id'', JStr ''r''), (''method'', JStr ''GET''),
         (''path'', JStr ''/''), (''status_code'', JNum 200), (''duration_ms'', JNum 1),
         (''outcome'', JStr ''success'')] ''service''"
    "hasPath example_platform
      [(''timestamp'', JStr ''t''), (''request_id'', JStr ''r''), (''method'', JStr ''GET''),
         (''path'', JStr ''/''), (''status_code'', JNum 200), (''duration_ms'', JNum 1),
         (''outcome'', JStr ''success'')] ''method''"
    "hasPath example_platform
      [(''timestamp'', JStr ''t''), (''request_id'', JStr ''r''), (''method'', JStr ''GET''),
         (''path'', JStr ''/''), (''status_code'', JNum 200), (''duration_ms'', JNum 1),
         (''outcome'', JStr ''success'')] ''path''"
    "hasPath example_platform
      [(''timestamp'', JStr ''t''), (''request_id'', JStr ''r''), (''method'', JStr ''GET''),
         (''path'', JStr ''/''), (''status_code'', JNum 200), (''duration_ms'', JNum 1),
         (''outcome'', JStr ''success'')] ''status_code''"
    "hasPath example_platform
      [(''timestamp'', JStr ''t''), (''request_id'', JStr ''r''), (''method'', JStr ''GET''),
         (''path'', JStr ''/''), (''status_code'', JNum 200), (''duration_ms'', JNum 1),
         (''outcome'', JStr ''success'')] ''duration_ms''"
    "hasPath example_platform
      [(''timestamp'', JStr ''t''), (''request_id'', JStr ''r''), (''method'', JStr ''GET''),
         (''path'', JStr ''/''), (''status_code'', JNum 200), (''duration_ms'', JNum 1),
         (''outcome'', JStr ''success'')] ''outcome''"
    by code_simp+
  have w1: "valid (validateSchema example_platform
      [(''timestamp'', JStr ''t''), (''request_id'', JStr ''r''), (''service'', JStr ''s''),
       (''method'', JStr ''GET''), (''path'', JStr ''/''), (''status_code'', JStr ''200''),
       (''duration_ms'', JNull), (''outcome'', JUndef), (''extra'', JNum 1)] None True)"
    using validateSchema_without_schema [of example_platform
        "[(''timestamp'', JStr ''t''), (''request_id'', JStr ''r''), (''service'', JStr ''s''),
       (''method'', JStr ''GET''), (''path'', JStr ''/''), (''status_code'', JStr ''200''),
       (''duration_ms'', JNull), (''outcome'', JUndef), (''extra'', JNum 1)]" True,
        THEN conjunct2, THEN conjunct1]
    by (simp add: a)
  have w2: "\<not> valid (validateSchema example_platform [(''timestamp'', JStr ''t'')] None False)"
    using validateSchema_without_schema [of example_platform "[(''timestamp'', JStr ''t'')]" False,
        THEN conjunct2, THEN conjunct1]
    by (simp add: b)
  have w3: "errors (validateSchema example_platform
        [(''timestamp'', JStr ''t''), (''request_id'', JStr ''r''), (''method'', JStr ''GET''),
         (''path'', JStr ''/''), (''status_code'', JNum 200), (''duration_ms'', JNum 1),
         (''outcome'', JStr ''success'')] None False)
       = [''Missing required built-in field: service'']"
    using validateSchema_without_schema [of example_platform
        "[(''timestamp'', JStr ''t''), (''request_id'', JStr ''r''), (''method'', JStr ''GET''),
         (''path'', JStr ''/''), (''status_code'', JNum 200), (''duration_ms'', JNum 1),
         (''outcome'', JStr ''success'')]" False,
        THEN conjunct2, THEN conjunct2, THEN conjunct1]
    by (simp add: c)
  from w1 w2 w3 show ?thesis by blast
qed
section \<open>Properties of the tail sampler\<close>

text \<open>
  Claim C8.  A record whose status code is 503 is kept under every rules object
  without a custom function, whatever the rates, thresholds and random draw; the first
  rule already decides, so also with a success rate of 0.  The call returns: nothing
  that could raise is evaluated.
\<close>

theorem shouldSample_503:
  "lookup ev ''status_code'' = JNum 503 \<Longrightarrow> custom rules = None \<Longrightarrow>
   shouldSample pf random ev (SampleRules rules) = Inr True
   \<and> shouldSample pf random ev (SampleRules (rules\<lparr>sampleRateSuccess := Some 0\<rparr>)) = Inr True"
  by (simp add: shouldSample_def shouldSampleDefault_def nullish_def js_ge_def)

theorem shouldSample_503_witness:
  "lookup [(''status_code'', JNum 503), (''outcome'', JStr ''success'')] ''status_code'' = JNum 503
   \<and> custom \<lparr>sampleRateSuccess = Some 0, slowThresholdMs = None, custom = None\<rparr> = None
   \<and> shouldSample example_platform (1 / 2) [(''status_code'', JNum 503), (''outcome'', JStr ''success'')]
        (SampleRules \<lparr>sampleRateSuccess = Some 0, slowThresholdMs = None, custom = None\<rparr>)
       = Inr True"
proof -
  have l: "lookup [(''status_code'', JNum 503), (''outcome'', JStr ''success'')] ''status_code''
             = JNum 503"
    by (simp add: lookup_def)
  have c: "custom \<lparr>sampleRateSuccess = Some 0, slowThresholdMs = None, custom = None\<rparr> = None"
    by simp
  from shouldSample_503 [OF l c, of example_platform "1 / 2"] l c show ?thesis by simp
qed
section \<open>Properties of the mask strategy\<close>

lemma map_enumerate_last:
  "xs \<noteq> [] \<Longrightarrow>
   map (\<lambda>(i, p). if i = n + length xs - 1 then p else f p) (enumerate n xs)
     = map f (butlast xs) @ [last xs]"
proof (induction xs arbitrary: n)
  case Nil
  then show ?case by simp
next
  case (Cons x xs)
  show ?case
  proof (cases "xs = []")
    case True
    then show ?thesis by simp
  next
    case False
    have "map (\<lambda>(i, p). if i = Suc n + length xs - 1 then p else f p) (enumerate (Suc n) xs)
            = map f (butlast xs) @ [last xs]"
      using Cons.IH [OF False, of "Suc n"] .
    with False show ?thesis by simp
  qed
qed

lemma maskValue_short: "length s \<le> 2 \<Longrightarrow> maskValue s = stars (length s)"
  by (simp add: maskValue_def)

lemma maskValue_plain:
  "2 < length s \<Longrightarrow> CHR ''@'' \<notin> set s \<Longrightarrow>
   maskValue s = hd s # stars (length s - 2) @ [last s]"
  by (auto simp: maskValue_def Let_def max_def)

lemma maskValue_email:
  assumes len: "2 < length (l @ ''@'' @ d)"
    and l: "CHR ''@'' \<notin> set l" and d: "CHR ''@'' \<notin> set d"
  shows "maskValue (l @ ''@'' @ d) =
           mask_label l @ ''@'' @
           join ''.'' (map mask_label (butlast (split (CHR ''.'') d)) @ [last (split (CHR ''.'') d)])"
proof -
  let ?ps = "split (CHR ''.'') d"
  have sp: "split (CHR ''@'') (l @ ''@'' @ d) = [l, d]"
    using l d by (simp add: split_at_sep split_no_sep)
  have ne: "?ps \<noteq> []" by (rule split_not_Nil)
  have dom: "map (\<lambda>(i, part). if i = length ?ps - 1 then part else mask_label part) (enumerate 0 ?ps)
               = map mask_label (butlast ?ps) @ [last ?ps]"
    using map_enumerate_last [OF ne, of 0 mask_label] by simp
  have loc: "(if length l > 1 then hd l # stars (max 1 (length l - 1)) else ''*'') = mask_label l"
    by (auto simp: mask_label_def max_def)
  have "maskValue (l @ ''@'' @ d) =
          (if length l > 1 then hd l # stars (max 1 (length l - 1)) else ''*'') @ ''@'' @
          join ''.'' (map (\<lambda>(i, part). if i = length ?ps - 1 then part else mask_label part)
                          (enumerate 0 ?ps))"
    using len sp unfolding maskValue_def mask_label_def Let_def by simp
  then show ?thesis
    by (simp only: loc dom)
qed

lemma maskValue_john: "maskValue ''john@example.com'' = ''j***@e******.com''"
  by (simp add: maskValue_def stars_def Let_def enumerate_eq_zip upt_rec)

text \<open>
  Claim C5 fails as stated: a local part of one character is not kept but replaced by
  one asterisk, and so is a domain label of one character.  On the address of the
  specification's own scenario the code returns \<open>*@*.com\<close>.
\<close>

theorem maskValue_keeps_first_counterexample:
  "maskValue ''a@b.com'' = ''*@*.com''
   \<and> hd (maskValue ''a@b.com'') \<noteq> hd ''a@b.com''
   \<and> maskValue ''a@b.com'' \<noteq> mask_spec ''a@b.com''"
  by (simp add: maskValue_def mask_spec_def keep_first_def stars_def Let_def
        enumerate_eq_zip upt_rec)

text \<open>
  Claim C5, amended.  A string of at most two characters becomes asterisks of the same
  length.  A longer string without \<open>@\<close> keeps its first and last character around
  asterisks.  A longer string with exactly one \<open>@\<close> has its local part and every
  domain label but the last masked by \<open>mask_label\<close>: the first character and
  asterisks when the part has more than one character, a single asterisk otherwise;
  the last label is kept.  Masking \<open>john@example.com\<close> gives \<open>j***@e******.com\<close>,
  which has exactly one \<open>@\<close>, starts with \<open>j\<close>, ends with \<open>m\<close> and contains an
  asterisk.
\<close>

theorem maskValue_contract:
  "(length s \<le> 2 \<longrightarrow> maskValue s = stars (length s))
   \<and> (2 < length t \<and> CHR ''@'' \<notin> set t \<longrightarrow>
        maskValue t = hd t # stars (length t - 2) @ [last t])
   \<and> (2 < length (l @ ''@'' @ d) \<and> CHR ''@'' \<notin> set l \<and> CHR ''@'' \<notin> set d \<longrightarrow>
        maskValue (l @ ''@'' @ d) =
          mask_label l @ ''@'' @
          join ''.'' (map mask_label (butlast (split (CHR ''.'') d))
                      @ [last (split (CHR ''.'') d)]))
   \<and> maskValue ''john@example.com'' = ''j***@e******.com''
   \<and> length (filter (\<lambda>c. c = CHR ''@'') (maskValue ''john@example.com'')) = 1
   \<and> hd (maskValue ''john@example.com'') = CHR ''j''
   \<and> last (maskValue ''john@example.com'') = CHR ''m''
   \<and> CHR ''*'' \<in> set (maskValue ''john@example.com'')"
proof -
  have short: "length s \<le> 2 \<longrightarrow> maskValue s = stars (length s)"
    by (simp add: maskValue_short)
  have plain: "2 < length t \<and> CHR ''@'' \<notin> set t \<longrightarrow>
      maskValue t = hd t # stars (length t - 2) @ [last t]"
    by (simp add: maskValue_plain)
  have email: "2 < length (l @ ''@'' @ d) \<and> CHR ''@'' \<notin> set l \<and> CHR ''@'' \<notin> set d \<longrightarrow>
      maskValue (l @ ''@'' @ d) =
        mask_label l @ ''@'' @
        join ''.'' (map mask_label (butlast (split (CHR ''.'') d))
                    @ [last (split (CHR ''.'') d)])"
    using maskValue_email [of l d] by blast
  have shape: "length (filter (\<lambda>c. c = CHR ''@'') ''j***@e******.com'') = 1
      \<and> hd ''j***@e******.com'' = CHR ''j''
      \<and> last ''j***@e******.com'' = CHR ''m''
      \<and> CHR ''*'' \<in> set ''j***@e******.com''"
    by simp
  show ?thesis
    unfolding maskValue_john using short plain email shape by blast
qed

theorem maskValue_contract_witness:
  "length ''ab'' \<le> 2 \<and> maskValue ''ab'' = ''**''
   \<and> 2 < length ''hello'' \<and> CHR ''@'' \<notin> set ''hello'' \<and> maskValue ''hello'' = ''h***o''
   \<and> 2 < length ''a@b.com'' \<and> CHR ''@'' \<notin> set ''a'' \<and> CHR ''@'' \<notin> set ''b.com''
   \<and> maskValue ''a@b.com'' = ''*@*.com''"
  using maskValue_contract [where s = "''ab''" and t = "''hello''" and l = "''a''" and d = "''b.com''"]
  by (simp add: stars_def mask_label_def)

section \<open>Properties of the redaction engine\<close>

lemma collect_map_Inr: "collect (map Inr xs) = Inr xs"
  by (induction xs) auto

lemma collect_Inl:
  "(\<exists>r \<in> set rs. r = Inl TypeError) \<Longrightarrow> collect rs = Inl TypeError"
proof (induction rs rule: collect.induct)
  case (2 e rs)
  then show ?case by (cases e) simp
next
  case (3 x rs)
  then show ?case by (auto split: sum.splits error.splits)
qed simp

lemma to_string_convertible:
  "to_string pf v = (if convertible v then Inr (projr (to_string pf v)) else Inl TypeError)"
proof (induction v)
  case (JArr xs)
  let ?f = "\<lambda>x. if x = JUndef \<or> x = JNull then Inr [] else to_string pf x"
  show ?case
  proof (cases "list_all convertible xs")
    case True
    have "?f x = Inr (projr (?f x))" if x: "x \<in> set xs" for x
    proof -
      from x True have "convertible x" by (simp add: list_all_iff)
      with JArr [OF x] have "to_string pf x = Inr (projr (to_string pf x))" by simp
      then show ?thesis by simp
    qed
    then have "map ?f xs = map (\<lambda>x. Inr (projr (?f x))) xs"
      by (intro map_cong refl)
    then have "map ?f xs = map Inr (map (\<lambda>x. projr (?f x)) xs)"
      by (simp only: map_map comp_def)
    then have "collect (map ?f xs) = Inr (map (\<lambda>x. projr (?f x)) xs)"
      by (simp only: collect_map_Inr)
    with True show ?thesis by simp
  next
    case False
    then obtain x where x: "x \<in> set xs" "\<not> convertible x"
      by (auto simp: list_all_iff)
    with JArr [OF x(1)] have "to_string pf x = Inl TypeError" by simp
    moreover from x(2) have "x \<noteq> JUndef" "x \<noteq> JNull" by auto
    ultimately have "?f x = Inl TypeError" by simp
    with x(1) have "Inl TypeError \<in> ?f ` set xs" by (rule rev_image_eqI [OF _ sym])
    then have "\<exists>r \<in> set (map ?f xs). r = Inl TypeError"
      by (simp only: set_map bex_triv_one_point1)
    then have "collect (map ?f xs) = Inl TypeError" by (rule collect_Inl)
    with False show ?thesis by simp
  qed
qed simp_all

lemma to_string_returns: "(\<exists>s. to_string pf v = Inr s) \<longleftrightarrow> convertible v"
  using to_string_convertible [of pf v] by (cases "convertible v") auto







section \<open>Properties of the event builder\<close>

lemma finalize_finalized:
  "finalized s \<Longrightarrow> finalize pf now outcome statusCode s = (s, event s)"
  by (simp add: finalize_def snapshot_def)

lemma finalized_finalize: "finalized (fst (finalize pf now outcome statusCode s))"
  by (simp add: finalize_def Let_def)

lemma snd_finalize: "snd (finalize pf now outcome statusCode s) = event (fst (finalize pf now outcome statusCode s))"
  by (simp add: finalize_def Let_def snapshot_def)

text \<open>
  Claim C3.  A second call of \<open>finalize\<close>, at any later time and with any arguments,
  returns the snapshot of the first call and leaves the builder as the first call left
  it: the record with its \<open>duration_ms\<close>, \<open>status_code\<close> and \<open>outcome\<close>, the start
  time and both flags.
\<close>

theorem finalize_idempotent:
  "finalize pf now2 outcome2 statusCode2 (fst (finalize pf now1 outcome1 statusCode1 s))
     = (fst (finalize pf now1 outcome1 statusCode1 s), snd (finalize pf now1 outcome1 statusCode1 s))"
  by (simp add: finalize_finalized finalized_finalize snd_finalize)

theorem finalize_idempotent_witness:
  "finalize example_platform 99 OError 500
     (fst (finalize example_platform 12 OSuccess 200 (createEventBuilder [(''method'', JStr ''GET'')] 0)))
   = (\<lparr>event = [(''method'', JStr ''GET''), (''duration_ms'', JNum 12),
                 (''status_code'', JNum 200), (''outcome'', JStr ''success'')],
       startTime = 0, finalized = True, emitted = False\<rparr>,
      [(''method'', JStr ''GET''), (''duration_ms'', JNum 12),
       (''status_code'', JNum 200), (''outcome'', JStr ''success'')])"
proof -
  have f: "finalize example_platform 12 OSuccess 200 (createEventBuilder [(''method'', JStr ''GET'')] 0)
    = (\<lparr>event = [(''method'', JStr ''GET''), (''duration_ms'', JNum 12),
                 (''status_code'', JNum 200), (''outcome'', JStr ''success'')],
       startTime = 0, finalized = True, emitted = False\<rparr>,
      [(''method'', JStr ''GET''), (''duration_ms'', JNum 12),
       (''status_code'', JNum 200), (''outcome'', JStr ''success'')])"
    by (simp add: finalize_def createEventBuilder_def Let_def lookup_def durationMs_def
          snapshot_def example_platform_def)
  show ?thesis
    using finalize_idempotent [of example_platform 99 OError 500 12 OSuccess 200
        "createEventBuilder [(''method'', JStr ''GET'')] 0"]
    by (simp add: f)
qed

lemma lookup_foldl_other:
  assumes "\<And>r key. key \<in> set ks \<Longrightarrow> lookup (f r key) k = lookup r k"
  shows "lookup (foldl f t ks) k = lookup t k"
  using assms by (induction ks arbitrary: t) auto

lemma lookup_mergeDeep_other:
  assumes "k \<notin> set (keys source)"
  shows "lookup (mergeDeep target source depth) k = lookup target k"
proof (cases "depth \<ge> MAX_MERGE_DEPTH")
  case True
  have "lookup (spread target source) k = lookup target k"
    unfolding spread_def using assms
    by (intro lookup_foldl_other) (auto simp: lookup_update)
  with True show ?thesis by (subst mergeDeep.simps) simp
next
  case False
  then have d: "depth < MAX_MERGE_DEPTH" by simp
  show ?thesis
    unfolding mergeDeep_loop [OF d]
    by (intro lookup_foldl_other) (use assms in \<open>auto intro!: lookup_put_other\<close>)
qed

lemma lookup_setPath_loop_other:
  "ps \<noteq> [] \<Longrightarrow> k \<noteq> hd ps \<Longrightarrow> lookup (setPath_loop cur ps v) k = lookup cur k"
  by (cases "(cur, ps, v)" rule: setPath_loop.cases) (auto simp: lookup_put_other Let_def)

lemma lookup_setPath_other:
  "k \<noteq> hd (split (CHR ''.'') path) \<Longrightarrow> lookup (setPath ev path v) k = lookup ev k"
  by (simp add: setPath_def lookup_setPath_loop_other split_not_Nil)

lemma lookup_absent: "k \<notin> set (keys kvs) \<Longrightarrow> lookup kvs k = JUndef"
  by (simp add: lookup_def keys_def map_of_eq_None_iff [THEN iffD2])

lemma calls_snoc: "calls pf (cs @ [c]) s = call pf (calls pf cs s) c"
  by (simp add: calls_def)

lemma calls_invariant:
  assumes "''outcome'' \<notin> set (keys initialData)" and "''error'' \<notin> set (keys initialData)"
    and "\<forall>c \<in> set cs. leaves_outcome c"
  shows "\<not> finalized (calls pf cs (createEventBuilder initialData start))
     \<and> (if \<exists>c \<in> set cs. marks pf c
         then lookup (event (calls pf cs (createEventBuilder initialData start))) ''outcome''
                = JStr ''error''
         else lookup (event (calls pf cs (createEventBuilder initialData start))) ''outcome''
                = JUndef
              \<and> lookup (event (calls pf cs (createEventBuilder initialData start))) ''error''
                = JUndef)"
  using assms(3)
proof (induction cs rule: rev_induct)
  case Nil
  show ?case
    using assms(1,2) by (simp add: calls_def createEventBuilder_def lookup_absent)
next
  case (snoc c cs)
  let ?s = "calls pf cs (createEventBuilder initialData start)"
  from snoc.prems have lc: "leaves_outcome c" and "\<forall>c \<in> set cs. leaves_outcome c"
    by simp_all
  with snoc.IH have nf: "\<not> finalized ?s"
    and inv: "if \<exists>c \<in> set cs. marks pf c
         then lookup (event ?s) ''outcome'' = JStr ''error''
         else lookup (event ?s) ''outcome'' = JUndef \<and> lookup (event ?s) ''error'' = JUndef"
    by simp_all
  show ?case
  proof (cases c)
    case (Enrich obj)
    with lc have k: "''outcome'' \<notin> set (keys obj)" "''error'' \<notin> set (keys obj)"
      by simp_all
    show ?thesis
      using nf inv Enrich
      by (simp add: calls_snoc enrich_def lookup_mergeDeep_other [OF k(1)]
            lookup_mergeDeep_other [OF k(2)])
  next
    case (Set path v)
    with lc have k: "''outcome'' \<noteq> hd (split (CHR ''.'') path)"
      "''error'' \<noteq> hd (split (CHR ''.'') path)"
      by auto
    show ?thesis
      using nf inv Set
      by (simp add: calls_snoc set_path_def lookup_setPath_other [OF k(1)]
            lookup_setPath_other [OF k(2)])
  next
    case (MarkError err)
    show ?thesis
    proof (cases "normalizeError pf err")
      case (Inl e)
      with nf inv MarkError show ?thesis
        by (simp add: calls_snoc markError_def)
    next
      case (Inr canonError)
      with nf inv MarkError show ?thesis
        by (auto simp: calls_snoc markError_def Let_def lookup_update split: if_splits)
    qed
  qed
qed

lemma finalize_outcome_kept:
  "\<not> finalized s \<Longrightarrow> truthy (lookup (event s) ''outcome'') \<Longrightarrow>
   lookup (snd (finalize pf now hint statusCode s)) ''outcome'' = lookup (event s) ''outcome''"
  by (simp add: finalize_def Let_def snapshot_def lookup_update)

lemma finalize_outcome_fresh:
  "\<not> finalized s \<Longrightarrow> \<not> truthy (lookup (event s) ''outcome'') \<Longrightarrow>
   lookup (snd (finalize pf now hint statusCode s)) ''outcome'' =
     JStr (if hint = OAborted then ''aborted''
           else if truthy (lookup (event s) ''error'') \<or> statusCode \<ge> 500 then ''error''
           else outcome_str hint)"
  by (simp add: finalize_def Let_def snapshot_def lookup_update)

lemma message_case:
  assumes "\<forall>m. g \<noteq> Data (JStr m)"
  shows "(case g of Data (JStr s) \<Rightarrow> f s | _ \<Rightarrow> x) = x"
proof (cases g)
  case (Data v)
  with assms show ?thesis by (cases v) simp_all
next
  case (Builtin b)
  then show ?thesis by simp
qed

lemma marks_Thrown:
  "marks pf (MarkError (Thrown err)) \<longleftrightarrow>
     convertible err \<or> (\<exists>m. get_prop pf (Data err) ''message'' = Data (JStr m))"
proof (cases "\<exists>m. get_prop pf (Data err) ''message'' = Data (JStr m)")
  case True
  then obtain m where m: "get_prop pf (Data err) ''message'' = Data (JStr m)" by blast
  then have "is_object (Data err)" by (cases err) simp_all
  with m True show ?thesis by simp
next
  case False
  have c: "(case get_prop pf (Data err) ''message'' of
              Data (JStr s) \<Rightarrow> Inr s | _ \<Rightarrow> to_string pf err) = to_string pf err"
    by (rule message_case) (use False in blast)
  have "marks pf (MarkError (Thrown err)) \<longleftrightarrow> (\<exists>s. to_string pf err = Inr s)"
    by (simp add: c split: sum.splits)
  with False show ?thesis by (simp add: to_string_returns)
qed

text \<open>
  Claim C2 fails as stated.  \<open>finalize\<close> resolves the outcome only when the record
  carries none: an outcome written by \<open>enrich\<close> or \<open>set\<close> is kept, also with a status
  code of 503, and an outcome \<open>aborted\<close> written before \<open>markError\<close> is kept although an
  error was marked.
\<close>

theorem finalize_outcome_policy_counterexample:
  "lookup (snd (finalize example_platform 1 OSuccess 503
       (calls example_platform [Enrich [(''outcome'', JStr ''success'')]]
          (createEventBuilder [] 0)))) ''outcome'' = JStr ''success''
   \<and> outcome_str (outcome_policy False OSuccess 503) = ''error''
   \<and> lookup (snd (finalize example_platform 1 OSuccess 200
       (calls example_platform [Set ''outcome'' (JStr ''aborted''), MarkError (Thrown (JStr ''boom''))]
          (createEventBuilder [] 0)))) ''outcome'' = JStr ''aborted''
   \<and> outcome_str (outcome_policy True OSuccess 200) = ''error''"
  by code_simp

text \<open>
  Claim C2, amended.  A record that carries an outcome when \<open>finalize\<close> is first
  called keeps it.  For a builder created without the keys \<open>outcome\<close> and \<open>error\<close>
  and any sequence of \<open>markError\<close> calls and of \<open>enrich\<close> and \<open>set\<close> calls that write
  neither these two keys nor a key \<open>__proto__\<close>, the first \<open>finalize\<close> gives the
  outcome of the policy: \<open>error\<close> if an error was marked, else \<open>aborted\<close> if the
  caller passes \<open>aborted\<close>, else \<open>error\<close> for a status code of 500 or more, else the
  outcome passed.  An error is marked by a call of \<open>markError\<close> that returns; a call
  that raises, because \<open>String(err)\<close> does, marks nothing.
\<close>

theorem finalize_outcome_policy:
  "(\<not> finalized s \<and> truthy (lookup (event s) ''outcome'') \<longrightarrow>
      lookup (snd (finalize pf now hint statusCode s)) ''outcome'' = lookup (event s) ''outcome'')
   \<and> (''outcome'' \<notin> set (keys initialData) \<and> ''error'' \<notin> set (keys initialData)
       \<and> (\<forall>c \<in> set cs. leaves_outcome c) \<longrightarrow>
      lookup (snd (finalize pf now hint statusCode
                     (calls pf cs (createEventBuilder initialData start)))) ''outcome''
        = JStr (outcome_str (outcome_policy (\<exists>c \<in> set cs. marks pf c) hint statusCode)))
   \<and> (marks pf (MarkError (Thrown err)) \<longleftrightarrow>
        convertible err \<or> (\<exists>m. get_prop pf (Data err) ''message'' = Data (JStr m)))
   \<and> marks pf (MarkError (ErrorInstance name message own))"
proof (intro conjI impI)
  assume "\<not> finalized s \<and> truthy (lookup (event s) ''outcome'')"
  then show "lookup (snd (finalize pf now hint statusCode s)) ''outcome'' = lookup (event s) ''outcome''"
    by (simp add: finalize_outcome_kept)
next
  let ?s = "calls pf cs (createEventBuilder initialData start)"
  assume a: "''outcome'' \<notin> set (keys initialData) \<and> ''error'' \<notin> set (keys initialData)
       \<and> (\<forall>c \<in> set cs. leaves_outcome c)"
  then have inv: "\<not> finalized ?s"
    "if \<exists>c \<in> set cs. marks pf c
     then lookup (event ?s) ''outcome'' = JStr ''error''
     else lookup (event ?s) ''outcome'' = JUndef \<and> lookup (event ?s) ''error'' = JUndef"
    using calls_invariant [of initialData cs pf start] by simp_all
  show "lookup (snd (finalize pf now hint statusCode ?s)) ''outcome''
        = JStr (outcome_str (outcome_policy (\<exists>c \<in> set cs. marks pf c) hint statusCode))"
  proof (cases "\<exists>c \<in> set cs. marks pf c")
    case True
    with inv have o: "lookup (event ?s) ''outcome'' = JStr ''error''" by simp
    then have "truthy (lookup (event ?s) ''outcome'')" by simp
    from finalize_outcome_kept [OF inv(1) this] o True show ?thesis
      by (simp add: outcome_policy_def)
  next
    case False
    with inv have o: "lookup (event ?s) ''outcome'' = JUndef" "lookup (event ?s) ''error'' = JUndef"
      by simp_all
    then have "\<not> truthy (lookup (event ?s) ''outcome'')" by simp
    from finalize_outcome_fresh [OF inv(1) this] o False show ?thesis
      by (cases hint) (simp_all add: outcome_policy_def)
  qed
next
  show "marks pf (MarkError (Thrown err)) \<longleftrightarrow>
        convertible err \<or> (\<exists>m. get_prop pf (Data err) ''message'' = Data (JStr m))"
    by (rule marks_Thrown)
next
  show "marks pf (MarkError (ErrorInstance name message own))"
    by (simp add: Let_def)
qed

theorem finalize_outcome_policy_witness:
  "lookup (snd (finalize example_platform 5 OAborted 499
       (calls example_platform
          [Enrich [(''user'', JObj [(''id'', JStr ''u1'')])], Set ''cart.total'' (JNum 3),
           MarkError (ErrorInstance ''TypeError'' ''bad'' [])]
          (createEventBuilder [(''method'', JStr ''GET'')] 0)))) ''outcome'' = JStr ''error''
   \<and> lookup (snd (finalize example_platform 5 OSuccess 503
       (calls example_platform [Enrich [(''user'', JObj [(''id'', JStr ''u1'')])]]
          (createEventBuilder [(''method'', JStr ''GET'')] 0)))) ''outcome'' = JStr ''error''
   \<and> \<not> marks example_platform (MarkError (Thrown (JObj [(''toString'', JStr ''x'')])))
   \<and> lookup (snd (finalize example_platform 5 OSuccess 200
       (calls example_platform [MarkError (Thrown (JObj [(''toString'', JStr ''x'')]))]
          (createEventBuilder [(''method'', JStr ''GET'')] 0)))) ''outcome'' = JStr ''success''
   \<and> lookup (snd (finalize example_platform 5 OSuccess 200
       (createEventBuilder [(''outcome'', JStr ''aborted'')] 0))) ''outcome'' = JStr ''aborted''"
proof -
  let ?cs1 = "[Enrich [(''user'', JObj [(''id'', JStr ''u1'')])], Set ''cart.total'' (JNum 3),
           MarkError (ErrorInstance ''TypeError'' ''bad'' [])]"
  let ?cs2 = "[Enrich [(''user'', JObj [(''id'', JStr ''u1'')])]]"
  let ?cs3 = "[MarkError (Thrown (JObj [(''toString'', JStr ''x'')]))]"
  have k: "''outcome'' \<notin> set (keys [(''method'', JStr ''GET'')])
           \<and> ''error'' \<notin> set (keys [(''method'', JStr ''GET'')])"
    by (simp add: keys_def)
  have l1: "\<forall>c \<in> set ?cs1. leaves_outcome c" by code_simp
  have l2: "\<forall>c \<in> set ?cs2. leaves_outcome c" by code_simp
  have l3: "\<forall>c \<in> set ?cs3. leaves_outcome c" by code_simp
  have m1: "\<exists>c \<in> set ?cs1. marks example_platform c" by code_simp
  have m2: "\<not> (\<exists>c \<in> set ?cs2. marks example_platform c)" by code_simp
  have m3: "\<not> (\<exists>c \<in> set ?cs3. marks example_platform c)" by code_simp
  have n: "\<not> marks example_platform (MarkError (Thrown (JObj [(''toString'', JStr ''x'')])))"
    by code_simp
  have w1: "lookup (snd (finalize example_platform 5 OAborted 499
       (calls example_platform ?cs1
          (createEventBuilder [(''method'', JStr ''GET'')] 0)))) ''outcome'' = JStr ''error''"
    using finalize_outcome_policy [where pf = example_platform and now = 5 and hint = OAborted
        and statusCode = 499 and start = 0 and initialData = "[(''method'', JStr ''GET'')]"
        and cs = "?cs1", THEN conjunct2, THEN conjunct1, rule_format,
        OF conjI [OF conjunct1 [OF k] conjI [OF conjunct2 [OF k] l1]]]
    by (simp only: m1 outcome_policy_def if_True outcome_str.simps)
  have w2: "lookup (snd (finalize example_platform 5 OSuccess 503
       (calls example_platform ?cs2
          (createEventBuilder [(''method'', JStr ''GET'')] 0)))) ''outcome'' = JStr ''error''"
    using finalize_outcome_policy [where pf = example_platform and now = 5 and hint = OSuccess
        and statusCode = 503 and start = 0 and initialData = "[(''method'', JStr ''GET'')]"
        and cs = "?cs2", THEN conjunct2, THEN conjunct1, rule_format,
        OF conjI [OF conjunct1 [OF k] conjI [OF conjunct2 [OF k] l2]]] m2
    by (simp add: outcome_policy_def)
  have w3: "lookup (snd (finalize example_platform 5 OSuccess 200
       (calls example_platform ?cs3
          (createEventBuilder [(''method'', JStr ''GET'')] 0)))) ''outcome'' = JStr ''success''"
    using finalize_outcome_policy [where pf = example_platform and now = 5 and hint = OSuccess
        and statusCode = 200 and start = 0 and initialData = "[(''method'', JStr ''GET'')]"
        and cs = "?cs3", THEN conjunct2, THEN conjunct1, rule_format,
        OF conjI [OF conjunct1 [OF k] conjI [OF conjunct2 [OF k] l3]]] m3
    by (simp add: outcome_policy_def)
  have w4: "lookup (snd (finalize example_platform 5 OSuccess 200
       (createEventBuilder [(''outcome'', JStr ''aborted'')] 0))) ''outcome'' = JStr ''aborted''"
    using finalize_outcome_policy [THEN conjunct1, rule_format,
        of "createEventBuilder [(''outcome'', JStr ''aborted'')] 0" example_platform 5 OSuccess 200]
    by (simp add: createEventBuilder_def lookup_def)
  from w1 w2 n w3 w4 show ?thesis by blast
qed
section \<open>Properties of the lifecycle orchestrator\<close>

lemma emitEvent_emitted:
  "emitted_var c \<Longrightarrow> emitEvent pf now random outcome statusCode c = c"
  by (simp add: emitEvent_def)

lemma emitted_emitEvent: "emitted_var (emitEvent pf now random outcome statusCode c)"
  by (simp add: emitEvent_def Let_def split: prod.splits sum.splits)

lemma sink_count_emitEvent:
  "\<not> emitted_var c \<Longrightarrow>
   sink_count (emitEvent pf now random outcome statusCode c) \<le> sink_count c + 1"
  by (simp add: emitEvent_def Let_def sink_count_def split: prod.splits sum.splits)

lemma context_call_frame:
  "emitted_var (context_call pf bc c) = emitted_var c"
  "sink_count (context_call pf bc c) = sink_count c"
  by (simp_all add: context_call_def sink_count_def)

lemma deliver_invariant:
  assumes "(emitted_var c \<or> sink_count c = 0) \<and> sink_count c \<le> 1"
  shows "(emitted_var (deliver pf c i) \<or> sink_count (deliver pf c i) = 0)
         \<and> sink_count (deliver pf c i) \<le> 1"
proof (cases i)
  case (Signal outcome statusCode now random)
  show ?thesis
  proof (cases "emitted_var c")
    case True
    with assms Signal show ?thesis by (simp add: emitEvent_emitted)
  next
    case False
    with assms have "sink_count c = 0" by simp
    with sink_count_emitEvent [OF False, of pf now random outcome statusCode]
    have "sink_count (emitEvent pf now random outcome statusCode c) \<le> 1" by simp
    with Signal show ?thesis by (simp add: emitted_emitEvent)
  qed
next
  case (Call bc)
  with assms show ?thesis by (simp add: context_call_frame)
qed

lemma run_invariant:
  "(emitted_var c \<or> sink_count c = 0) \<and> sink_count c \<le> 1 \<Longrightarrow>
   (emitted_var (run pf ins c) \<or> sink_count (run pf ins c) = 0) \<and> sink_count (run pf ins c) \<le> 1"
  unfolding run_def
proof (induction ins arbitrary: c)
  case Nil
  then show ?case by simp
next
  case (Cons i ins)
  have "(emitted_var (deliver pf c i) \<or> sink_count (deliver pf c i) = 0)
        \<and> sink_count (deliver pf c i) \<le> 1"
    by (rule deliver_invariant [OF Cons.prems])
  from Cons.IH [OF this] show ?case by simp
qed

lemma run_signals_emitted:
  "emitted_var c \<Longrightarrow> \<forall>i \<in> set ins. is_Signal i \<Longrightarrow> run pf ins c = c"
  unfolding run_def
proof (induction ins)
  case Nil
  then show ?case by simp
next
  case (Cons i ins)
  then show ?case by (cases i) (simp_all add: emitEvent_emitted)
qed

text \<open>
  Claim C1.  Whatever sequence of completion and abort signals and of context calls
  reaches a lifecycle instance, a sink is invoked at most once.  A signal that arrives
  when the flag \<open>emitted\<close> is set changes nothing, neither the builder nor the effects;
  the first signal sets the flag before any other work, so every later signal leaves
  the instance as the first one left it.
\<close>

theorem at_most_once_emission:
  "sink_count (run pf ins (createCanonContext cfg rid traceId initialData dbg start timestamp)) \<le> 1
   \<and> (emitted_var c \<longrightarrow> emitEvent pf now random outcome statusCode c = c)
   \<and> emitted_var (emitEvent pf now random outcome statusCode c)
   \<and> ((\<forall>i \<in> set later. is_Signal i) \<longrightarrow>
        run pf later (emitEvent pf now random outcome statusCode c)
          = emitEvent pf now random outcome statusCode c)"
proof -
  let ?c0 = "createCanonContext cfg rid traceId initialData dbg start timestamp"
  have "(emitted_var ?c0 \<or> sink_count ?c0 = 0) \<and> sink_count ?c0 \<le> 1"
    by (simp add: createCanonContext_def sink_count_def Let_def)
  from run_invariant [OF this, of pf ins]
  have a: "sink_count (run pf ins ?c0) \<le> 1" by simp
  have b: "(\<forall>i \<in> set later. is_Signal i) \<longrightarrow>
        run pf later (emitEvent pf now random outcome statusCode c)
          = emitEvent pf now random outcome statusCode c"
    using run_signals_emitted [OF emitted_emitEvent] by blast
  from a b show ?thesis
    by (simp add: emitEvent_emitted emitted_emitEvent)
qed

theorem at_most_once_emission_witness:
  "sink_count
     (run example_platform
        [Signal OAborted 499 5 (1 / 2), Signal OSuccess 200 6 (1 / 2), Signal OAborted 499 7 0]
        (createCanonContext
           \<lparr>service = ''api'', version = None, deployment_id = None, region = None,
            schema = None, emit = True, strict = None, sample = SampleUndefined, redact = None\<rparr>
           ''req_1'' None [(''method'', JStr ''GET''), (''path'', JStr ''/x'')] False 0 ''t'')) \<le> 1
   \<and> map (\<lambda>e. (lookup e ''outcome'', lookup e ''status_code''))
        (emit_calls
          (run example_platform
            [Signal OAborted 499 5 (1 / 2), Signal OSuccess 200 6 (1 / 2), Signal OAborted 499 7 0]
            (createCanonContext
               \<lparr>service = ''api'', version = None, deployment_id = None, region = None,
                schema = None, emit = True, strict = None, sample = SampleUndefined, redact = None\<rparr>
               ''req_1'' None [(''method'', JStr ''GET''), (''path'', JStr ''/x'')] False 0 ''t'')))
       = [(JStr ''aborted'', JNum 499)]"
proof -
  have once: "sink_count
     (run example_platform
        [Signal OAborted 499 5 (1 / 2), Signal OSuccess 200 6 (1 / 2), Signal OAborted 499 7 0]
        (createCanonContext
           \<lparr>service = ''api'', version = None, deployment_id = None, region = None,
            schema = None, emit = True, strict = None, sample = SampleUndefined, redact = None\<rparr>
           ''req_1'' None [(''method'', JStr ''GET''), (''path'', JStr ''/x'')] False 0 ''t'')) \<le> 1"
    using at_most_once_emission [THEN conjunct1] .
  have sent: "map (\<lambda>e. (lookup e ''outcome'', lookup e ''status_code''))
        (emit_calls
          (run example_platform
            [Signal OAborted 499 5 (1 / 2), Signal OSuccess 200 6 (1 / 2), Signal OAborted 499 7 0]
            (createCanonContext
               \<lparr>service = ''api'', version = None, deployment_id = None, region = None,
                schema = None, emit = True, strict = None, sample = SampleUndefined, redact = None\<rparr>
               ''req_1'' None [(''method'', JStr ''GET''), (''path'', JStr ''/x'')] False 0 ''t'')))
       = [(JStr ''aborted'', JNum 499)]"
    by code_simp
  from once sent show ?thesis by blast
qed

section \<open>Properties of the store\<close>

lemma alloc_eq: "alloc h ob = (h1, a) \<longleftrightarrow> h1 = h @ [ob] \<and> a = length h"
  by (auto simp: alloc_def)

lemma length_assign [simp]: "length (assign h a k v) = length h"
  by (simp add: assign_def split: option.splits hobj.splits)

lemma prefix_assign: "prefix h0 h \<Longrightarrow> length h0 \<le> a \<Longrightarrow> prefix h0 (assign h a k v)"
  by (auto simp: assign_def prefix_def list_update_append split: option.splits hobj.splits)

lemma foldl_inv:
  assumes "P s" and "\<And>s x. x \<in> set xs \<Longrightarrow> P s \<Longrightarrow> P (f s x)"
  shows "P (foldl f s xs)"
  using assms by (induction xs arbitrary: s) auto


lemma repr_on_cong:
  "repr_on A h v t \<Longrightarrow> A \<subseteq> B \<Longrightarrow> (\<forall>a \<in> A. obj_at h' a = obj_at h a) \<Longrightarrow> repr_on B h' v t"
proof (induction t arbitrary: v)
  case (JArr ts)
  from JArr.prems(1) obtain a vs where v: "v = HRef a" and a: "a \<in> A"
    and o: "obj_at h a = Some (HArray vs)" and l: "list_all2 (repr_on A h) vs ts"
    by (auto split: hval.splits option.splits hobj.splits)
  have "list_all2 (repr_on B h') vs ts"
    using l
  proof (rule list.rel_mono_strong)
    fix x t assume "x \<in> set vs" "t \<in> set ts" "repr_on A h x t"
    then show "repr_on B h' x t"
      using JArr.IH JArr.prems(2,3) by blast
  qed
  with v a o JArr.prems(2,3) show ?case by auto
next
  case (JObj kts)
  from JObj.prems(1) obtain a fs where v: "v = HRef a" and a: "a \<in> A"
    and o: "obj_at h a = Some (HObject fs)"
    and l: "list_all2 (\<lambda>f kt. fst f = fst kt \<and> repr_on A h (snd f) (snd kt)) fs kts"
    by (auto split: hval.splits option.splits hobj.splits)
  have "list_all2 (\<lambda>f kt. fst f = fst kt \<and> repr_on B h' (snd f) (snd kt)) fs kts"
    using l
  proof (rule list.rel_mono_strong)
    fix f kt assume "f \<in> set fs" "kt \<in> set kts"
      "fst f = fst kt \<and> repr_on A h (snd f) (snd kt)"
    then show "fst f = fst kt \<and> repr_on B h' (snd f) (snd kt)"
      using JObj.IH [of kt "snd kt" "snd f"] JObj.prems(2,3)
      by (cases kt) auto
  qed
  with v a o JObj.prems(2,3) show ?case by auto
qed simp_all

lemma repr_on_obj:
  "repr_on A h (HRef a) (JObj kts) \<longleftrightarrow>
     a \<in> A \<and> (\<exists>fs. obj_at h a = Some (HObject fs) \<and> frel A h fs kts)"
  by (auto simp: frel_def split: option.splits hobj.splits)

lemma repr_on_ref_obj:
  "repr_on A h v (JObj kts) \<Longrightarrow> \<exists>a. v = HRef a"
  by (cases v) auto






lemma frel_cong:
  assumes "frel A h fs kts" and "A \<subseteq> B" and "\<forall>a \<in> A. obj_at h' a = obj_at h a"
  shows "frel B h' fs kts"
  using assms(1) unfolding frel_def
  by (rule list_all2_mono) (use assms(2,3) repr_on_cong in blast)

lemma obj_at_prefix: "prefix h h' \<Longrightarrow> a < length h \<Longrightarrow> obj_at h' a = obj_at h a"
  by (auto simp: obj_at_def prefix_def nth_append)









lemma repr_on_restrict: "repr_on A h v t \<Longrightarrow> repr_on (A \<inter> {..<length h}) h v t"
proof (induction t arbitrary: v)
  case (JArr ts)
  from JArr.prems obtain a vs where v: "v = HRef a" and a: "a \<in> A"
    and o: "obj_at h a = Some (HArray vs)" and l: "list_all2 (repr_on A h) vs ts"
    by (auto split: hval.splits option.splits hobj.splits)
  have "list_all2 (repr_on (A \<inter> {..<length h}) h) vs ts"
    using l
  proof (rule list.rel_mono_strong)
    fix x t assume "x \<in> set vs" "t \<in> set ts" "repr_on A h x t"
    then show "repr_on (A \<inter> {..<length h}) h x t"
      using JArr.IH by blast
  qed
  moreover from o have "a < length h" by (simp add: obj_at_def split: if_splits)
  ultimately show ?case using v a o by auto
next
  case (JObj kts)
  from JObj.prems obtain a fs where v: "v = HRef a" and a: "a \<in> A"
    and o: "obj_at h a = Some (HObject fs)"
    and l: "list_all2 (\<lambda>f kt. fst f = fst kt \<and> repr_on A h (snd f) (snd kt)) fs kts"
    by (auto split: hval.splits option.splits hobj.splits)
  have "list_all2 (\<lambda>f kt. fst f = fst kt \<and> repr_on (A \<inter> {..<length h}) h (snd f) (snd kt)) fs kts"
    using l
  proof (rule list.rel_mono_strong)
    fix f kt assume "f \<in> set fs" "kt \<in> set kts"
      "fst f = fst kt \<and> repr_on A h (snd f) (snd kt)"
    then show "fst f = fst kt \<and> repr_on (A \<inter> {..<length h}) h (snd f) (snd kt)"
      using JObj.IH [of kt "snd kt" "snd f"]
      by (cases kt) auto
  qed
  moreover from o have "a < length h" by (simp add: obj_at_def split: if_splits)
  ultimately show ?case using v a o by auto
qed simp_all

lemma repr_prefix: "repr h v t \<Longrightarrow> prefix h h' \<Longrightarrow> repr h' v t"
proof -
  assume r: "repr h v t" and p: "prefix h h'"
  have 1: "repr_on (UNIV \<inter> {..<length h}) h v t" using r by (rule repr_on_restrict)
  have 2: "\<forall>a \<in> UNIV \<inter> {..<length h}. obj_at h' a = obj_at h a"
    using p by (auto intro: obj_at_prefix)
  show ?thesis by (rule repr_on_cong [OF 1 _ 2]) simp
qed



lemma arel_cong:
  assumes "list_all2 (repr_on A h) vs ts" and "A \<subseteq> B" and "\<forall>a \<in> A. obj_at h' a = obj_at h a"
  shows "list_all2 (repr_on B h') vs ts"
  using assms(1) by (rule list_all2_mono) (use assms(2,3) repr_on_cong in blast)

lemma repr_on_arr:
  "repr_on A h (HRef a) (JArr ts) \<longleftrightarrow>
     a \<in> A \<and> (\<exists>vs. obj_at h a = Some (HArray vs) \<and> list_all2 (repr_on A h) vs ts)"
  by (auto split: option.splits hobj.splits)

lemma obj_at_append_new: "obj_at (h @ [ob]) (length h) = Some ob"
  by (simp add: obj_at_def)

lemma alloc_tree_fresh:
  "prefix h (fst (alloc_tree h t))
   \<and> repr_on {length h..<length (fst (alloc_tree h t))} (fst (alloc_tree h t))
        (snd (alloc_tree h t)) t"
  "prefix h (fst (alloc_trees h ts))
   \<and> list_all2 (repr_on {length h..<length (fst (alloc_trees h ts))} (fst (alloc_trees h ts)))
        (snd (alloc_trees h ts)) ts"
  "prefix h (fst (alloc_fields h kts))
   \<and> frel {length h..<length (fst (alloc_fields h kts))} (fst (alloc_fields h kts))
        (snd (alloc_fields h kts)) kts"
proof (induction h t and h ts and h kts rule: alloc_tree_alloc_trees_alloc_fields.induct)
  case (6 h ts)
  obtain h1 vs where e: "alloc_trees h ts = (h1, vs)" by (cases "alloc_trees h ts")
  with 6 have p: "prefix h h1"
    and l: "list_all2 (repr_on {length h..<length h1} h1) vs ts" by simp_all
  let ?h2 = "h1 @ [HArray vs]"
  have le: "length h \<le> length h1" using p by (rule prefix_length_le)
  have "list_all2 (repr_on {length h..<length ?h2} ?h2) vs ts"
    by (rule arel_cong [OF l]) (auto intro!: obj_at_prefix)
  then have "repr_on {length h..<length ?h2} ?h2 (HRef (length h1)) (JArr ts)"
    unfolding repr_on_arr using le by (simp add: obj_at_append_new)
  moreover have "prefix h ?h2" using p by (rule prefix_prefix)
  ultimately show ?case by (simp add: e alloc_def del: repr_on.simps)
next
  case (7 h kts)
  obtain h1 fs where e: "alloc_fields h kts = (h1, fs)" by (cases "alloc_fields h kts")
  with 7 have p: "prefix h h1"
    and l: "frel {length h..<length h1} h1 fs kts" by simp_all
  let ?h2 = "h1 @ [HObject fs]"
  have le: "length h \<le> length h1" using p by (rule prefix_length_le)
  have "frel {length h..<length ?h2} ?h2 fs kts"
    by (rule frel_cong [OF l]) (auto intro!: obj_at_prefix)
  then have "repr_on {length h..<length ?h2} ?h2 (HRef (length h1)) (JObj kts)"
    unfolding repr_on_obj using le by (simp add: obj_at_append_new)
  moreover have "prefix h ?h2" using p by (rule prefix_prefix)
  ultimately show ?case by (simp add: e alloc_def del: repr_on.simps)
next
  case (9 h t ts)
  obtain h1 v where e1: "alloc_tree h t = (h1, v)" by (cases "alloc_tree h t")
  obtain h2 vs where e2: "alloc_trees h1 ts = (h2, vs)" by (cases "alloc_trees h1 ts")
  from 9(1) e1 have p1: "prefix h h1" and r1: "repr_on {length h..<length h1} h1 v t"
    by simp_all
  from 9(2) [OF e1 [symmetric]] e2 have p2: "prefix h1 h2"
    and l2: "list_all2 (repr_on {length h1..<length h2} h2) vs ts"
    by simp_all
  have le1: "length h \<le> length h1" using p1 by (rule prefix_length_le)
  have le2: "length h1 \<le> length h2" using p2 by (rule prefix_length_le)
  have a: "repr_on {length h..<length h2} h2 v t"
    by (rule repr_on_cong [OF r1]) (use le2 p2 in \<open>auto intro!: obj_at_prefix\<close>)
  have b: "list_all2 (repr_on {length h..<length h2} h2) vs ts"
    by (rule arel_cong [OF l2]) (use le1 in auto)
  from a b p1 p2 show ?case by (simp add: e1 e2)
next
  case (11 h kt kts)
  obtain h1 v where e1: "alloc_tree h (snd kt) = (h1, v)" by (cases "alloc_tree h (snd kt)")
  obtain h2 fs where e2: "alloc_fields h1 kts = (h2, fs)" by (cases "alloc_fields h1 kts")
  from 11(1) e1 have p1: "prefix h h1" and r1: "repr_on {length h..<length h1} h1 v (snd kt)"
    by simp_all
  from 11(2) [OF e1 [symmetric]] e2 have p2: "prefix h1 h2"
    and l2: "frel {length h1..<length h2} h2 fs kts"
    by simp_all
  have le1: "length h \<le> length h1" using p1 by (rule prefix_length_le)
  have le2: "length h1 \<le> length h2" using p2 by (rule prefix_length_le)
  have a: "repr_on {length h..<length h2} h2 v (snd kt)"
    by (rule repr_on_cong [OF r1]) (use le2 p2 in \<open>auto intro!: obj_at_prefix\<close>)
  have b: "frel {length h..<length h2} h2 fs kts"
    by (rule frel_cong [OF l2]) (use le1 in auto)
  from a b p1 p2 show ?case by (simp add: e1 e2 frel_def)
qed (simp_all add: frel_def)

lemma fold_max_ge: "(a::nat) \<le> fold max xs a" "x \<in> set xs \<Longrightarrow> x \<le> fold max xs a"
proof (induction xs arbitrary: a)
  case Nil
  { case 1 show ?case by simp }
  { case 2 then show ?case by simp }
next
  case (Cons y ys)
  { case 1 show ?case using Cons.IH(1) [of "max y a"] by simp }
  { case 2 then show ?case
      using Cons.IH(1) [of "max y a"] Cons.IH(2) [of "max y a"] by auto }
qed

lemma those_map:
  "list_all2 (\<lambda>x t. f x = Some t) xs ts \<Longrightarrow> those (map f xs) = Some ts"
  by (induction rule: list_all2_induct) auto

lemma reify_repr:
  "repr_on A h v t \<Longrightarrow> height t \<le> n \<Longrightarrow> reify n h v = Some t"
proof (induction t arbitrary: v n)
  case (JArr ts)
  from JArr.prems(1) obtain a vs where v: "v = HRef a"
    and o: "obj_at h a = Some (HArray vs)" and l: "list_all2 (repr_on A h) vs ts"
    by (auto split: hval.splits option.splits hobj.splits)
  from JArr.prems(2) obtain m where n: "n = Suc m" and m: "fold max (map height ts) 0 \<le> m"
    by (cases n) auto
  have "list_all2 (\<lambda>x t. reify m h x = Some t) vs ts"
    using l
  proof (rule list.rel_mono_strong)
    fix x t assume "x \<in> set vs" and t: "t \<in> set ts" and r: "repr_on A h x t"
    have "height t \<le> m" using fold_max_ge(2) [of "height t" "map height ts" 0] t m by auto
    with JArr.IH [OF t r] show "reify m h x = Some t" .
  qed
  then show ?case by (simp add: v n o those_map)
next
  case (JObj kts)
  from JObj.prems(1) obtain a fs where v: "v = HRef a"
    and o: "obj_at h a = Some (HObject fs)"
    and l: "list_all2 (\<lambda>f kt. fst f = fst kt \<and> repr_on A h (snd f) (snd kt)) fs kts"
    by (auto split: hval.splits option.splits hobj.splits)
  from JObj.prems(2) obtain m where n: "n = Suc m"
    and m: "fold max (map (\<lambda>kt. height (snd kt)) kts) 0 \<le> m"
    by (cases n) auto
  have "list_all2 (\<lambda>f kt. map_option (Pair (fst f)) (reify m h (snd f)) = Some kt) fs kts"
    using l
  proof (rule list.rel_mono_strong)
    fix f kt assume "f \<in> set fs" and t: "kt \<in> set kts"
      and r: "fst f = fst kt \<and> repr_on A h (snd f) (snd kt)"
    have "height (snd kt) \<le> m"
      using fold_max_ge(2) [of "height (snd kt)" "map (\<lambda>kt. height (snd kt)) kts" 0] t m by auto
    with JObj.IH [of kt "snd kt" "snd f" m] t r
    show "map_option (Pair (fst f)) (reify m h (snd f)) = Some kt"
      by (cases kt) auto
  qed
  then show ?case by (simp add: v n o those_map)
qed auto


lemma setPath_loop_h_prefix:
  "prefix h0 h \<Longrightarrow> length h0 \<le> current \<Longrightarrow> prefix h0 (setPath_loop_h h current ps v)"
proof (induction h current ps v rule: setPath_loop_h.induct)
  case (1 h current v)
  then show ?case by simp
next
  case (2 h current key v)
  then show ?case by (simp add: prefix_assign)
next
  case (3 h current key k2 rest v)
  let ?ob = "HObject (if isPlainObject_h h (lookup_h (fields_of h current) key)
                      then fields_of h (addr_of (lookup_h (fields_of h current) key)) else [])"
  let ?h1 = "h @ [?ob]"
  have p1: "prefix h0 (assign ?h1 current key (HRef (length h)))"
    by (rule prefix_assign [OF prefix_prefix [OF "3.prems"(1)] "3.prems"(2)])
  have le: "length h0 \<le> length h" using "3.prems"(1) by (rule prefix_length_le)
  have al: "(?h1, length h) = alloc h ?ob" by (simp add: alloc_def)
  from "3.IH" [OF refl al p1 le] show ?case
    by (simp add: alloc_def Let_def)
qed

lemma setPath_h_prefix: "prefix h (fst (setPath_h h obj path v))"
proof -
  have "prefix h (setPath_loop_h (h @ [HObject (fields_of h obj)]) (length h)
                    (split (CHR ''.'') path) v)"
    by (rule setPath_loop_h_prefix) simp_all
  then show ?thesis by (simp add: setPath_h_def alloc_def)
qed

lemma snapshot_h_Some:
  "repr_on A h v t \<Longrightarrow> height t \<le> n \<Longrightarrow> snapshot_h n h v = Some (alloc_tree h t)"
  by (simp add: snapshot_h_def reify_repr)

lemma redact_loop_prefix:
  "prefix h1 (fst (foldl
       (\<lambda>(h, state) path.
          case state of
            Inl e \<Rightarrow> (h, Inl e)
          | Inr result \<Rightarrow>
              (let v = getPath_h pf h result path
               in if v \<noteq> HData HUndef
                  then (case redactValue_h pf h v (fieldStrategy sch path g) of
                          Inl e \<Rightarrow> (h, Inl e)
                        | Inr redactedValue \<Rightarrow>
                            (case setPath_h h result path redactedValue of
                               (h', result') \<Rightarrow> (h', Inr result')))
                  else (h, Inr result)))
       (h1, r1 :: error + addr) paths))"
proof -
  let ?F = "\<lambda>(h, state) path.
          case state of
            Inl e \<Rightarrow> (h, Inl e)
          | Inr result \<Rightarrow>
              (let v = getPath_h pf h result path
               in if v \<noteq> HData HUndef
                  then (case redactValue_h pf h v (fieldStrategy sch path g) of
                          Inl e \<Rightarrow> (h, Inl e)
                        | Inr redactedValue \<Rightarrow>
                            (case setPath_h h result path redactedValue of
                               (h', result') \<Rightarrow> (h', Inr result')))
                  else (h, Inr result))"
  have "prefix h1 (fst (foldl ?F (h1, r1) paths))"
  proof (rule foldl_inv [where P = "\<lambda>s. prefix h1 (fst s)"])
    show "prefix h1 (fst (h1, r1))" by simp
  next
    fix s :: "heap \<times> (error + addr)" and path assume p: "prefix h1 (fst s)"
    obtain hc rc where s: "s = (hc, rc)" by (cases s)
    show "prefix h1 (fst (?F s path))"
      using p prefix_order.trans [OF _ setPath_h_prefix, of h1 hc]
      by (auto simp: s Let_def case_prod_beta split: sum.splits)
  qed
  then show ?thesis .
qed
section \<open>The contract of \<open>mergeDeep\<close>\<close>



section \<open>Redaction on the store\<close>

text \<open>
  Claim C4.  Let the record given to \<open>applyRedaction\<close> be a value of the store, read
  by \<open>structuredClone\<close> to its full depth.  Then the call ends, returning a record or
  raising what a conversion raises, and the store before the call is an initial part
  of the store after it: no object that existed is changed, so the record given still
  stands for the same value, at every field and at every depth, whatever paths the
  configuration names.  When the configuration is absent or not enabled, the call
  returns, the record returned stands for the same value too, and all its objects lie
  at addresses allocated by the call: it shares nothing with the record given.
\<close>

theorem applyRedaction_copy_only:
  assumes "repr h (HRef ev) (JObj T)" and "height (JObj T) \<le> n"
  shows "\<exists>h' r. applyRedaction_h n pf h ev cfg sch = Some (h', r)
           \<and> prefix h h'
           \<and> repr h' (HRef ev) (JObj T)
           \<and> ((case cfg of None \<Rightarrow> True | Some c \<Rightarrow> \<not> enabled c) \<longrightarrow>
                (\<exists>a. r = Inr a \<and> repr_on {length h..<length h'} h' (HRef a) (JObj T)))"
proof -
  obtain h1 v where at: "alloc_tree h (JObj T) = (h1, v)" by (cases "alloc_tree h (JObj T)")
  have snap: "snapshot_h n h (HRef ev) = Some (h1, v)"
    by (simp only: snapshot_h_Some [OF assms] at)
  from alloc_tree_fresh(1) [of h "JObj T"]
  have p1: "prefix h h1" and r1: "repr_on {length h..<length h1} h1 v (JObj T)"
    by (simp_all only: at fst_conv snd_conv)
  from repr_on_ref_obj [OF r1] obtain a where v: "v = HRef a" by blast
  show ?thesis
  proof (cases "case cfg of None \<Rightarrow> True | Some c \<Rightarrow> \<not> enabled c")
    case True
    then have "applyRedaction_h n pf h ev cfg sch = Some (h1, Inr a)"
      by (auto simp: applyRedaction_h_def snap v split: option.splits)
    with p1 r1 v repr_prefix [OF assms(1) p1] True show ?thesis by simp
  next
    case False
    then obtain c where c: "cfg = Some c" "enabled c"
      by (auto split: option.splits)
    let ?g = "case strategy c of None \<Rightarrow> Mask | Some s \<Rightarrow> s"
    let ?paths = "if length (redact_fields c) > 0 then redact_fields c else DEFAULT_SENSITIVE_FIELDS"
    let ?res = "foldl
       (\<lambda>(h, state) path.
          case state of
            Inl e \<Rightarrow> (h, Inl e)
          | Inr result \<Rightarrow>
              (let v = getPath_h pf h result path
               in if v \<noteq> HData HUndef
                  then (case redactValue_h pf h v (fieldStrategy sch path ?g) of
                          Inl e \<Rightarrow> (h, Inl e)
                        | Inr redactedValue \<Rightarrow>
                            (case setPath_h h result path redactedValue of
                               (h', result') \<Rightarrow> (h', Inr result')))
                  else (h, Inr result)))
       (h1, Inr a) ?paths"
    have e: "applyRedaction_h n pf h ev cfg sch = Some ?res"
      by (simp add: applyRedaction_h_def snap v c Let_def)
    have p2: "prefix h1 (fst ?res)" by (rule redact_loop_prefix)
    have p: "prefix h (fst ?res)" using p1 p2 by (rule prefix_order.trans)
    obtain h' r where res: "?res = (h', r)" by (cases ?res)
    have "applyRedaction_h n pf h ev cfg sch = Some (h', r)"
      using e by (simp only: res)
    moreover have "prefix h h'" using p by (simp only: res fst_conv)
    moreover from this have "repr h' (HRef ev) (JObj T)"
      by (rule repr_prefix [OF assms(1)])
    ultimately show ?thesis using False by blast
  qed
qed

theorem applyRedaction_copy_only_witness:
  "repr [HObject [(''email'', HStr ''a@b.com'')],
         HObject [(''user'', HRef 0), (''status_code'', HNum 200)]]
        (HRef 1)
        (JObj [(''user'', JObj [(''email'', JStr ''a@b.com'')]), (''status_code'', JNum 200)])
   \<and> height (JObj [(''user'', JObj [(''email'', JStr ''a@b.com'')]), (''status_code'', JNum 200)]) \<le> 2
   \<and> applyRedaction_h 2 example_platform
         [HObject [(''email'', HStr ''a@b.com'')],
          HObject [(''user'', HRef 0), (''status_code'', HNum 200)]] 1
         (Some \<lparr>enabled = True, strategy = Some Mask, redact_fields = [''user.email'']\<rparr>) None
       = Some ([HObject [(''email'', HStr ''a@b.com'')],
                HObject [(''user'', HRef 0), (''status_code'', HNum 200)],
                HObject [(''email'', HStr ''a@b.com'')],
                HObject [(''user'', HRef 2), (''status_code'', HNum 200)],
                HObject [(''user'', HRef 5), (''status_code'', HNum 200)],
                HObject [(''email'', HStr ''*@*.com'')]], Inr 4)
   \<and> repr [HObject [(''email'', HStr ''a@b.com'')],
            HObject [(''user'', HRef 0), (''status_code'', HNum 200)],
            HObject [(''email'', HStr ''a@b.com'')],
            HObject [(''user'', HRef 2), (''status_code'', HNum 200)],
            HObject [(''user'', HRef 5), (''status_code'', HNum 200)],
            HObject [(''email'', HStr ''*@*.com'')]]
        (HRef 1)
        (JObj [(''user'', JObj [(''email'', JStr ''a@b.com'')]), (''status_code'', JNum 200)])
   \<and> applyRedaction_h 2 example_platform
         [HObject [(''email'', HStr ''a@b.com'')],
          HObject [(''user'', HRef 0), (''status_code'', HNum 200)]] 1 None None
       = Some ([HObject [(''email'', HStr ''a@b.com'')],
                HObject [(''user'', HRef 0), (''status_code'', HNum 200)],
                HObject [(''email'', HStr ''a@b.com'')],
                HObject [(''user'', HRef 2), (''status_code'', HNum 200)]], Inr 3)
   \<and> repr_on {2..<4}
        [HObject [(''email'', HStr ''a@b.com'')],
         HObject [(''user'', HRef 0), (''status_code'', HNum 200)],
         HObject [(''email'', HStr ''a@b.com'')],
         HObject [(''user'', HRef 2), (''status_code'', HNum 200)]]
        (HRef 3)
        (JObj [(''user'', JObj [(''email'', JStr ''a@b.com'')]), (''status_code'', JNum 200)])"
proof -
  let ?h = "[HObject [(''email'', HStr ''a@b.com'')],
             HObject [(''user'', HRef 0), (''status_code'', HNum 200)]]"
  let ?T = "[(''user'', JObj [(''email'', JStr ''a@b.com'')]), (''status_code'', JNum 200)]"
  let ?c = "\<lparr>enabled = True, strategy = Some Mask, redact_fields = [''user.email'']\<rparr>"
  have r: "repr ?h (HRef 1) (JObj ?T)" by (simp add: obj_at_def)
  have g: "height (JObj ?T) \<le> 2" by simp
  have e1: "applyRedaction_h 2 example_platform ?h 1 (Some ?c) None
       = Some ([HObject [(''email'', HStr ''a@b.com'')],
                HObject [(''user'', HRef 0), (''status_code'', HNum 200)],
                HObject [(''email'', HStr ''a@b.com'')],
                HObject [(''user'', HRef 2), (''status_code'', HNum 200)],
                HObject [(''user'', HRef 5), (''status_code'', HNum 200)],
                HObject [(''email'', HStr ''*@*.com'')]], Inr 4)"
    by code_simp
  have e2: "applyRedaction_h 2 example_platform ?h 1 None None
       = Some ([HObject [(''email'', HStr ''a@b.com'')],
                HObject [(''user'', HRef 0), (''status_code'', HNum 200)],
                HObject [(''email'', HStr ''a@b.com'')],
                HObject [(''user'', HRef 2), (''status_code'', HNum 200)]], Inr 3)"
    by code_simp
  let ?h1 = "[HObject [(''email'', HStr ''a@b.com'')],
            HObject [(''user'', HRef 0), (''status_code'', HNum 200)],
            HObject [(''email'', HStr ''a@b.com'')],
            HObject [(''user'', HRef 2), (''status_code'', HNum 200)],
            HObject [(''user'', HRef 5), (''status_code'', HNum 200)],
            HObject [(''email'', HStr ''*@*.com'')]]"
  let ?h2 = "[HObject [(''email'', HStr ''a@b.com'')],
         HObject [(''user'', HRef 0), (''status_code'', HNum 200)],
         HObject [(''email'', HStr ''a@b.com'')],
         HObject [(''user'', HRef 2), (''status_code'', HNum 200)]]"
  from applyRedaction_copy_only [OF r g, of example_platform "Some ?c" None]
  obtain h' r' where "Some (?h1, Inr 4 :: error + addr) = Some (h', r')"
    and "repr h' (HRef 1) (JObj ?T)"
    unfolding e1 by blast
  then have w1: "repr ?h1 (HRef 1) (JObj ?T)"
    by (simp only: option.inject prod.inject)
  from applyRedaction_copy_only [OF r g, of example_platform None None]
  obtain h'' r'' a'' where "Some (?h2, Inr 3 :: error + addr) = Some (h'', r'')"
    and "r'' = Inr a''"
    and "repr_on {length ?h..<length h''} h'' (HRef a'') (JObj ?T)"
    unfolding e2 option.case by blast
  then have "repr_on {length ?h..<length ?h2} ?h2 (HRef 3) (JObj ?T)"
    by (simp only: option.inject prod.inject sum.inject)
  moreover have "length ?h = 2" "length ?h2 = 4" by simp_all
  ultimately have w2: "repr_on {2..<4} ?h2 (HRef 3) (JObj ?T)"
    by (simp only:)
  from r g e1 w1 e2 w2 show ?thesis by blast
qed

end
